theory Spec2Isabelle
  imports Main
begin

section \<open>The synchronisation engine of s3-sync-client\<close>

text \<open>
  The engine (index.ts) keeps two module-level \<^verbatim>\<open>Map<string, FileState>\<close> objects,
  \<^verbatim>\<open>localState\<close> and \<^verbatim>\<open>s3State\<close>, and four per-path operations
  (\<^verbatim>\<open>uploadToS3\<close>, \<^verbatim>\<open>downloadFromS3\<close>, \<^verbatim>\<open>deleteFromS3\<close>, \<^verbatim>\<open>deleteLocal\<close>) that act on
  the local folder and on the bucket. The model threads one record through every function:
  the two maps, the files of the local file system, the objects of the bucket, the clock
  and the console output. A rejected promise or a thrown exception that the source catches
  is a branch that writes the error line to the console; one that it does not catch ends
  the function with \<open>Inl\<close>, carrying the state reached when it was thrown. Every function
  runs to its end before another starts: what a handler does while another one awaits is
  not part of the model.
\<close>

subsection \<open>Data\<close>

type_synonym key = string
type_synonym content = string
type_synonym timestamp = nat

text \<open>\<^verbatim>\<open>interface FileState { path: string; md5: string; lastModified: Date }\<close>;
  a \<^verbatim>\<open>Date\<close> is compared through its millisecond value.\<close>

record FileState =
  path :: key
  md5 :: string
  lastModified :: timestamp

text \<open>
  A JavaScript \<^verbatim>\<open>Map\<close> iterates in insertion order: \<^verbatim>\<open>set\<close> on a present key replaces
  the value where it stands, on a new key appends; \<^verbatim>\<open>delete\<close> removes the entry. It is an
  association list whose keys are distinct.
\<close>

type_synonym StateStore = "(key \<times> FileState) list"

definition Map_get :: "StateStore \<Rightarrow> key \<Rightarrow> FileState option" where
  "Map_get m k = map_of m k"

definition Map_has :: "StateStore \<Rightarrow> key \<Rightarrow> bool" where
  "Map_has m k = (k \<in> set (map fst m))"

fun Map_set :: "StateStore \<Rightarrow> key \<Rightarrow> FileState \<Rightarrow> StateStore" where
  "Map_set [] k v = [(k, v)]"
| "Map_set ((k', v') # m) k v =
     (if k' = k then (k, v) # m else (k', v') # Map_set m k v)"

definition Map_delete :: "StateStore \<Rightarrow> key \<Rightarrow> StateStore" where
  "Map_delete m k = filter (\<lambda>e. fst e \<noteq> k) m"

text \<open>One entry of \<^verbatim>\<open>response.Contents\<close> of a ListObjectsV2 call.\<close>

record S3Object =
  Key :: key
  ETag :: string
  LastModified :: timestamp

text \<open>The call rejects, or resolves with \<^verbatim>\<open>Contents\<close> undefined or a list.\<close>

datatype ListResponse = ListRejected | ListResolved "S3Object list option"

text \<open>\<^verbatim>\<open>config.isDryRun\<close> and \<^verbatim>\<open>config.localFolderPath\<close>; the other fields of \<^verbatim>\<open>config\<close>
  name the bucket and the credentials, which the model fixes.\<close>

record Config =
  isDryRun :: bool
  localFolderPath :: string

text \<open>A file of the file system is named by the segments of its absolute path.\<close>

type_synonym absolutePath = "string list"

text \<open>
  What the engine cannot decide: the working directory of the process (the segments of
  \<^verbatim>\<open>process.cwd()\<close>), the digest that \<^verbatim>\<open>calculateMD5\<close> computes from a file's bytes, the
  answer of the bucket to a listing, what the start-up scan of the folder finds (the names
  \<^verbatim>\<open>fs.readdirSync\<close> returns, or its failure; which paths are directories; the \<^verbatim>\<open>mtime\<close> of
  each), and which calls of the file system fail for which path string and which calls of
  the S3 client fail for which key.
\<close>

record Env =
  cwd :: absolutePath
  digest :: "content \<Rightarrow> string"
  listObjects :: ListResponse
  readdir :: "string list option"
  isDirectory :: "string \<Rightarrow> bool"
  mtime :: "string \<Rightarrow> timestamp"
  readFails :: "string \<Rightarrow> bool"
  hashFails :: "string \<Rightarrow> bool"
  writeFails :: "string \<Rightarrow> bool"
  unlinkFails :: "string \<Rightarrow> bool"
  putFails :: "key \<Rightarrow> bool"
  getFails :: "key \<Rightarrow> bool"
  deleteFails :: "key \<Rightarrow> bool"

text \<open>The lines written by \<^verbatim>\<open>console.log\<close> and \<^verbatim>\<open>logError\<close>. The lines of \<^verbatim>\<open>deleteLocal\<close>
  and of the watcher's handlers name the file by its path, the others by its key.\<close>

datatype event =
    PerformingInitialSync
  | InitialSyncCompleted
  | Uploaded key
  | ErrorUploading key
  | Downloaded key
  | ErrorDownloading key
  | DeletedFromS3 key
  | ErrorDeletingFromS3 key
  | DeletedLocally string
  | ErrorDeletingLocally string
  | WouldDownload key
  | WouldUpload key
  | WouldDeleteFromS3 key
  | WouldDeleteLocally key
  | ErrorSyncingS3ToLocal
  | ErrorInitializingS3State
  | ErrorAdding string
  | ErrorChanging string
  | ErrorDeletingWatched string

text \<open>The exceptions that no \<^verbatim>\<open>try\<close> of the engine catches, each with the path string the
  failing call was given: \<^verbatim>\<open>fs.readFileSync\<close> stands before the \<^verbatim>\<open>try\<close> of \<^verbatim>\<open>uploadToS3\<close>, and
  \<^verbatim>\<open>initializeLocalState\<close> has none.\<close>

datatype exn =
    ReadFileSyncFailed string
  | ReaddirSyncFailed
  | StatSyncFailed string
  | CalculateMD5Failed string

text \<open>
  The state of the process and of its two stores of files. \<open>disk\<close> maps each regular file
  of the file system to its bytes, \<open>bucket\<close> each key of the bucket to the bytes of its
  object, \<open>now\<close> is what \<^verbatim>\<open>new Date()\<close> returns. The clock is read and not advanced: the
  engine never compares a date with one it wrote earlier in the same pass, unless a listing
  names a key twice.
\<close>

record Sys =
  localState :: StateStore
  s3State :: StateStore
  disk :: "absolutePath \<Rightarrow> content option"
  bucket :: "key \<Rightarrow> content option"
  now :: timestamp
  console :: "event list"

type_synonym outcome = "(exn \<times> Sys) + Sys"

subsection \<open>Paths\<close>

text \<open>
  \<^verbatim>\<open>path.join\<close>, \<^verbatim>\<open>path.resolve\<close> and \<^verbatim>\<open>path.relative\<close> of Node's \<^verbatim>\<open>path\<close> module, in its POSIX
  flavour. A path string is cut at every \<^verbatim>\<open>/\<close>; normalisation drops the empty segments and
  the \<^verbatim>\<open>.\<close> segments and lets a \<^verbatim>\<open>..\<close> segment remove the segment before it.
\<close>

fun splitPath :: "string \<Rightarrow> string list" where
  "splitPath [] = [[]]"
| "splitPath (c # cs) =
     (if c = CHR ''/'' then [] # splitPath cs
      else (case splitPath cs of
              [] \<Rightarrow> [[c]]
            | segment # segments \<Rightarrow> (c # segment) # segments))"

fun joinSegments :: "string list \<Rightarrow> string" where
  "joinSegments [] = []"
| "joinSegments [segment] = segment"
| "joinSegments (segment # next # segments) =
     segment @ CHR ''/'' # joinSegments (next # segments)"

text \<open>\<^verbatim>\<open>normalizeString(path, allowAboveRoot)\<close>, segment by segment, onto the segments
  \<open>res\<close> kept so far.\<close>

fun normalizeString :: "bool \<Rightarrow> string list \<Rightarrow> string list \<Rightarrow> string list" where
  "normalizeString allowAboveRoot res [] = res"
| "normalizeString allowAboveRoot res (segment # segments) =
     normalizeString allowAboveRoot
       (if segment = [] \<or> segment = ''.'' then res
        else if segment = ''..''
        then (if res \<noteq> [] \<and> last res \<noteq> ''..'' then butlast res
              else if allowAboveRoot then res @ [''..'']
              else res)
        else res @ [segment])
       segments"

definition isAbsolute :: "string \<Rightarrow> bool" where
  "isAbsolute p = (p \<noteq> [] \<and> hd p = CHR ''/'')"

definition path_normalize :: "string \<Rightarrow> string" where
  "path_normalize p =
     (if p = [] then ''.''
      else
        let trailingSeparator = (last p = CHR ''/'');
            normalized = joinSegments (normalizeString (\<not> isAbsolute p) [] (splitPath p))
        in if normalized = []
           then (if isAbsolute p then ''/'' else if trailingSeparator then ''./'' else ''.'')
           else (if isAbsolute p then ''/'' else []) @ normalized @
                (if trailingSeparator then ''/'' else []))"

text \<open>\<^verbatim>\<open>path.join(a, b)\<close>: the non-empty arguments joined by \<^verbatim>\<open>/\<close>, then normalised.\<close>

definition path_join :: "string \<Rightarrow> string \<Rightarrow> string" where
  "path_join a b =
     (if a = [] \<and> b = [] then ''.''
      else path_normalize (if a = [] then b else if b = [] then a else a @ CHR ''/'' # b))"

text \<open>\<^verbatim>\<open>path.resolve(p)\<close>, as the segments of the absolute path: a relative path is taken
  from the working directory. It is also the file that a call of \<^verbatim>\<open>fs\<close> reaches through the
  path string \<open>p\<close>, in a file system without symbolic links.\<close>

definition path_resolve :: "Env \<Rightarrow> string \<Rightarrow> absolutePath" where
  "path_resolve env p =
     normalizeString False (if isAbsolute p then [] else cwd env) (splitPath p)"

fun commonPrefix :: "string list \<Rightarrow> string list \<Rightarrow> nat" where
  "commonPrefix (x # xs) (y # ys) = (if x = y then Suc (commonPrefix xs ys) else 0)"
| "commonPrefix xs ys = 0"

text \<open>\<^verbatim>\<open>path.relative(from, to)\<close>: both resolved, one \<^verbatim>\<open>..\<close> for every segment of \<open>from\<close>
  below their common prefix, then what is left of \<open>to\<close>.\<close>

definition path_relative :: "Env \<Rightarrow> string \<Rightarrow> string \<Rightarrow> string" where
  "path_relative env from to =
     (if from = to then []
      else
        let fromSegments = path_resolve env from;
            toSegments = path_resolve env to;
            shared = commonPrefix fromSegments toSegments
        in if fromSegments = toSegments then []
           else joinSegments
                  (replicate (length fromSegments - shared) ''..'' @ drop shared toSegments))"

subsection \<open>The four operations\<close>

definition logLine :: "event \<Rightarrow> Sys \<Rightarrow> Sys" where
  "logLine e st = st\<lparr>console := console st @ [e]\<rparr>"

definition readFileSync :: "Env \<Rightarrow> Sys \<Rightarrow> string \<Rightarrow> content option" where
  "readFileSync env st filePath =
     (if readFails env filePath then None else disk st (path_resolve env filePath))"

definition calculateMD5 :: "Env \<Rightarrow> Sys \<Rightarrow> string \<Rightarrow> string option" where
  "calculateMD5 env st filePath =
     (if hashFails env filePath then None
      else map_option (digest env) (disk st (path_resolve env filePath)))"

definition uploadToS3 :: "Config \<Rightarrow> Env \<Rightarrow> string \<Rightarrow> Sys \<Rightarrow> outcome" where
  "uploadToS3 cfg env filePath st =
     (case readFileSync env st filePath of
        None \<Rightarrow> Inl (ReadFileSyncFailed filePath, st)
      | Some fileContent \<Rightarrow>
          let k = path_relative env (localFolderPath cfg) filePath
          in if putFails env k then Inr (logLine (ErrorUploading k) st)
             else
               let st1 = logLine (Uploaded k) (st\<lparr>bucket := (bucket st)(k \<mapsto> fileContent)\<rparr>)
               in (case calculateMD5 env st1 filePath of
                     None \<Rightarrow> Inr (logLine (ErrorUploading k) st1)
                   | Some h \<Rightarrow>
                       Inr (st1\<lparr>s3State := Map_set (s3State st1) k
                              \<lparr>path = k, md5 = h, lastModified = now st1\<rparr>\<rparr>)))"

text \<open>\<^verbatim>\<open>fs.mkdirSync\<close> and \<^verbatim>\<open>fs.writeFileSync\<close> fail or succeed together, as \<open>writeFails\<close>
  says for the path of the file.\<close>

definition downloadFromS3 :: "Config \<Rightarrow> Env \<Rightarrow> key \<Rightarrow> Sys \<Rightarrow> Sys" where
  "downloadFromS3 cfg env k st =
     (case (if getFails env k then None else bucket st k) of
        None \<Rightarrow> logLine (ErrorDownloading k) st
      | Some body \<Rightarrow>
          let filePath = path_join (localFolderPath cfg) k
          in if writeFails env filePath then logLine (ErrorDownloading k) st
             else
               let st1 = logLine (Downloaded k)
                     (st\<lparr>disk := (disk st)(path_resolve env filePath \<mapsto> body)\<rparr>)
               in (case calculateMD5 env st1 filePath of
                     None \<Rightarrow> logLine (ErrorDownloading k) st1
                   | Some h \<Rightarrow>
                       st1\<lparr>localState := Map_set (localState st1) k
                              \<lparr>path = k, md5 = h, lastModified = now st1\<rparr>\<rparr>))"

definition deleteFromS3 :: "Env \<Rightarrow> key \<Rightarrow> Sys \<Rightarrow> Sys" where
  "deleteFromS3 env k st =
     (if deleteFails env k then logLine (ErrorDeletingFromS3 k) st
      else (logLine (DeletedFromS3 k) (st\<lparr>bucket := (bucket st)(k := None)\<rparr>))
             \<lparr>s3State := Map_delete (s3State st) k\<rparr>)"

definition deleteLocal :: "Config \<Rightarrow> Env \<Rightarrow> key \<Rightarrow> Sys \<Rightarrow> Sys" where
  "deleteLocal cfg env k st =
     (let filePath = path_join (localFolderPath cfg) k
      in if unlinkFails env filePath \<or> disk st (path_resolve env filePath) = None
         then logLine (ErrorDeletingLocally filePath) st
         else (logLine (DeletedLocally filePath)
                 (st\<lparr>disk := (disk st)(path_resolve env filePath := None)\<rparr>))
                \<lparr>localState := Map_delete (localState st) k\<rparr>)"

subsection \<open>The periodic pass\<close>

text \<open>
  Each \<^verbatim>\<open>for (const [key, value] of map)\<close> below runs over the entries the map has when
  the loop starts. That is what the live iterator of a \<^verbatim>\<open>Map\<close> yields here: a loop body
  never adds a key to the map its loop iterates, and removes at most the entry being
  visited.
\<close>

fun syncS3ToLocal_loop :: "Config \<Rightarrow> Env \<Rightarrow> S3Object list \<Rightarrow> Sys \<Rightarrow> Sys" where
  "syncS3ToLocal_loop cfg env [] st = st"
| "syncS3ToLocal_loop cfg env (object # rest) st =
     (let k = Key object;
          s3LastModified = LastModified object;
          localFile = Map_get (localState st) k
      in syncS3ToLocal_loop cfg env rest
           (if (case localFile of None \<Rightarrow> True
                | Some f \<Rightarrow> lastModified f < s3LastModified)
            then downloadFromS3 cfg env k st else st))"

definition syncS3ToLocal :: "Config \<Rightarrow> Env \<Rightarrow> Sys \<Rightarrow> Sys" where
  "syncS3ToLocal cfg env st =
     (case listObjects env of
        ListRejected \<Rightarrow> logLine ErrorSyncingS3ToLocal st
      | ListResolved None \<Rightarrow> st
      | ListResolved (Some contents) \<Rightarrow> syncS3ToLocal_loop cfg env contents st)"

fun syncLocalToS3_uploads ::
  "Config \<Rightarrow> Env \<Rightarrow> (key \<times> FileState) list \<Rightarrow> Sys \<Rightarrow> outcome" where
  "syncLocalToS3_uploads cfg env [] st = Inr st"
| "syncLocalToS3_uploads cfg env ((k, localFile) # rest) st =
     (if (case Map_get (s3State st) k of None \<Rightarrow> True
          | Some s3File \<Rightarrow> md5 localFile \<noteq> md5 s3File)
      then (case uploadToS3 cfg env (path_join (localFolderPath cfg) k) st of
              Inl thrown \<Rightarrow> Inl thrown
            | Inr st' \<Rightarrow> syncLocalToS3_uploads cfg env rest st')
      else syncLocalToS3_uploads cfg env rest st)"

fun syncLocalToS3_deletes :: "Env \<Rightarrow> key list \<Rightarrow> Sys \<Rightarrow> Sys" where
  "syncLocalToS3_deletes env [] st = st"
| "syncLocalToS3_deletes env (k # rest) st =
     syncLocalToS3_deletes env rest
       (if \<not> Map_has (localState st) k then deleteFromS3 env k st else st)"

definition syncLocalToS3 :: "Config \<Rightarrow> Env \<Rightarrow> Sys \<Rightarrow> outcome" where
  "syncLocalToS3 cfg env st =
     (case syncLocalToS3_uploads cfg env (localState st) st of
        Inl thrown \<Rightarrow> Inl thrown
      | Inr st1 \<Rightarrow> Inr (syncLocalToS3_deletes env (map fst (s3State st1)) st1))"

text \<open>The callback of \<^verbatim>\<open>setInterval\<close>: \<^verbatim>\<open>await syncS3ToLocal(); await syncLocalToS3();\<close>\<close>

definition periodicSync :: "Config \<Rightarrow> Env \<Rightarrow> Sys \<Rightarrow> outcome" where
  "periodicSync cfg env st = syncLocalToS3 cfg env (syncS3ToLocal cfg env st)"

subsection \<open>The start-up scans\<close>

text \<open>\<^verbatim>\<open>object.ETag!.replace(/"/g, "")\<close>: the tag without its quote characters.\<close>

definition stripQuotes :: "string \<Rightarrow> string" where
  "stripQuotes tag = filter (\<lambda>c. c \<noteq> CHR 0x22) tag"

fun initializeS3State_loop :: "S3Object list \<Rightarrow> Sys \<Rightarrow> Sys" where
  "initializeS3State_loop [] st = st"
| "initializeS3State_loop (object # rest) st =
     (let k = Key object
      in initializeS3State_loop rest
           (st\<lparr>s3State := Map_set (s3State st) k
                 \<lparr>path = k, md5 = stripQuotes (ETag object),
                  lastModified = LastModified object\<rparr>\<rparr>))"

definition initializeS3State :: "Env \<Rightarrow> Sys \<Rightarrow> Sys" where
  "initializeS3State env st =
     (case listObjects env of
        ListRejected \<Rightarrow> logLine ErrorInitializingS3State st
      | ListResolved None \<Rightarrow> st
      | ListResolved (Some contents) \<Rightarrow> initializeS3State_loop contents st)"

text \<open>\<^verbatim>\<open>fs.statSync(filePath)\<close> throws for a path that is neither a file nor a directory
  any more; \<^verbatim>\<open>isFile()\<close> holds for the regular files.\<close>

fun initializeLocalState_loop :: "Config \<Rightarrow> Env \<Rightarrow> string list \<Rightarrow> Sys \<Rightarrow> outcome" where
  "initializeLocalState_loop cfg env [] st = Inr st"
| "initializeLocalState_loop cfg env (file # rest) st =
     (let filePath = path_join (localFolderPath cfg) file
      in if disk st (path_resolve env filePath) = None \<and> \<not> isDirectory env filePath
         then Inl (StatSyncFailed filePath, st)
         else if disk st (path_resolve env filePath) \<noteq> None
         then (case calculateMD5 env st filePath of
                 None \<Rightarrow> Inl (CalculateMD5Failed filePath, st)
               | Some h \<Rightarrow>
                   initializeLocalState_loop cfg env rest
                     (st\<lparr>localState := Map_set (localState st) file
                           \<lparr>path = file, md5 = h, lastModified = mtime env filePath\<rparr>\<rparr>))
         else initializeLocalState_loop cfg env rest st)"

definition initializeLocalState :: "Config \<Rightarrow> Env \<Rightarrow> Sys \<Rightarrow> outcome" where
  "initializeLocalState cfg env st =
     (case readdir env of
        None \<Rightarrow> Inl (ReaddirSyncFailed, st)
      | Some files \<Rightarrow> initializeLocalState_loop cfg env files st)"

subsection \<open>The initial full reconciliation\<close>

fun performInitialSync_downloads ::
  "Config \<Rightarrow> Env \<Rightarrow> (key \<times> FileState) list \<Rightarrow> Sys \<Rightarrow> Sys" where
  "performInitialSync_downloads cfg env [] st = st"
| "performInitialSync_downloads cfg env ((k, s3File) # rest) st =
     performInitialSync_downloads cfg env rest
       (if (case Map_get (localState st) k of None \<Rightarrow> True
            | Some localFile \<Rightarrow> md5 localFile \<noteq> md5 s3File)
        then (if isDryRun cfg then logLine (WouldDownload k) st
              else downloadFromS3 cfg env k st)
        else st)"

fun performInitialSync_uploads ::
  "Config \<Rightarrow> Env \<Rightarrow> (key \<times> FileState) list \<Rightarrow> Sys \<Rightarrow> outcome" where
  "performInitialSync_uploads cfg env [] st = Inr st"
| "performInitialSync_uploads cfg env ((k, localFile) # rest) st =
     (if (case Map_get (s3State st) k of None \<Rightarrow> True
          | Some s3File \<Rightarrow> md5 localFile \<noteq> md5 s3File)
      then (if isDryRun cfg
            then performInitialSync_uploads cfg env rest (logLine (WouldUpload k) st)
            else (case uploadToS3 cfg env (path_join (localFolderPath cfg) k) st of
                    Inl thrown \<Rightarrow> Inl thrown
                  | Inr st' \<Rightarrow> performInitialSync_uploads cfg env rest st'))
      else performInitialSync_uploads cfg env rest st)"

fun performInitialSync_deletesS3 :: "Config \<Rightarrow> Env \<Rightarrow> key list \<Rightarrow> Sys \<Rightarrow> Sys" where
  "performInitialSync_deletesS3 cfg env [] st = st"
| "performInitialSync_deletesS3 cfg env (k # rest) st =
     performInitialSync_deletesS3 cfg env rest
       (if \<not> Map_has (localState st) k
        then (if isDryRun cfg then logLine (WouldDeleteFromS3 k) st
              else deleteFromS3 env k st)
        else st)"

fun performInitialSync_deletesLocal :: "Config \<Rightarrow> Env \<Rightarrow> key list \<Rightarrow> Sys \<Rightarrow> Sys" where
  "performInitialSync_deletesLocal cfg env [] st = st"
| "performInitialSync_deletesLocal cfg env (k # rest) st =
     performInitialSync_deletesLocal cfg env rest
       (if \<not> Map_has (s3State st) k
        then (if isDryRun cfg then logLine (WouldDeleteLocally k) st
              else deleteLocal cfg env k st)
        else st)"

definition performInitialSync :: "Config \<Rightarrow> Env \<Rightarrow> Sys \<Rightarrow> outcome" where
  "performInitialSync cfg env st0 =
     (let st1 = logLine PerformingInitialSync st0;
          st2 = performInitialSync_downloads cfg env (s3State st1) st1
      in case performInitialSync_uploads cfg env (localState st2) st2 of
           Inl thrown \<Rightarrow> Inl thrown
         | Inr st3 \<Rightarrow>
             let st4 = performInitialSync_deletesS3 cfg env (map fst (s3State st3)) st3;
                 st5 = performInitialSync_deletesLocal cfg env (map fst (localState st4)) st4
             in Inr (logLine InitialSyncCompleted st5))"

text \<open>\<^verbatim>\<open>main\<close>, up to the end of the initial pass: the two scans, then the pass. What it
  installs afterwards are the handlers and the timer callback modelled around it.\<close>

definition main :: "Config \<Rightarrow> Env \<Rightarrow> Sys \<Rightarrow> outcome" where
  "main cfg env st =
     (case initializeLocalState cfg env (initializeS3State env st) of
        Inl thrown \<Rightarrow> Inl thrown
      | Inr st1 \<Rightarrow> performInitialSync cfg env st1)"

subsection \<open>The watcher's handlers\<close>

text \<open>Each handler receives the path of the file and wraps its body in
  \<^verbatim>\<open>try\<close>/\<^verbatim>\<open>catch\<close>, so what \<^verbatim>\<open>uploadToS3\<close> throws is logged there. None of them reads
  \<^verbatim>\<open>config.isDryRun\<close>.\<close>

definition onAdd :: "Config \<Rightarrow> Env \<Rightarrow> string \<Rightarrow> Sys \<Rightarrow> Sys" where
  "onAdd cfg env filePath st =
     (let k = path_relative env (localFolderPath cfg) filePath
      in case calculateMD5 env st filePath of
           None \<Rightarrow> logLine (ErrorAdding filePath) st
         | Some h \<Rightarrow>
             (case uploadToS3 cfg env filePath
                     (st\<lparr>localState := Map_set (localState st) k
                           \<lparr>path = k, md5 = h, lastModified = now st\<rparr>\<rparr>) of
                Inl (e, st') \<Rightarrow> logLine (ErrorAdding filePath) st'
              | Inr st' \<Rightarrow> st'))"

definition onChange :: "Config \<Rightarrow> Env \<Rightarrow> string \<Rightarrow> Sys \<Rightarrow> Sys" where
  "onChange cfg env filePath st =
     (let k = path_relative env (localFolderPath cfg) filePath
      in case calculateMD5 env st filePath of
           None \<Rightarrow> logLine (ErrorChanging filePath) st
         | Some h \<Rightarrow>
             (case uploadToS3 cfg env filePath
                     (st\<lparr>localState := Map_set (localState st) k
                           \<lparr>path = k, md5 = h, lastModified = now st\<rparr>\<rparr>) of
                Inl (e, st') \<Rightarrow> logLine (ErrorChanging filePath) st'
              | Inr st' \<Rightarrow> st'))"

definition onUnlink :: "Config \<Rightarrow> Env \<Rightarrow> string \<Rightarrow> Sys \<Rightarrow> Sys" where
  "onUnlink cfg env filePath st =
     (let k = path_relative env (localFolderPath cfg) filePath
      in deleteFromS3 env k (st\<lparr>localState := Map_delete (localState st) k\<rparr>))"

subsection \<open>Observing a run\<close>

text \<open>The state in which a function ended, by return or by exception, and what it threw.\<close>

definition final :: "outcome \<Rightarrow> Sys" where
  "final r = (case r of Inl (e, st) \<Rightarrow> st | Inr st \<Rightarrow> st)"

definition thrown :: "outcome \<Rightarrow> exn option" where
  "thrown r = (case r of Inl (e, st) \<Rightarrow> Some e | Inr st \<Rightarrow> None)"

text \<open>The console lines written between two states of one run.\<close>

definition newEvents :: "Sys \<Rightarrow> Sys \<Rightarrow> event list" where
  "newEvents st st' = drop (length (console st)) (console st')"

text \<open>
  An operation was scheduled for a path when its function was called for it (it then
  logs its success or its error under that key, or throws for the file of that key) or, in
  dry-run, when its line was reported.
\<close>

definition downloadAttempted :: "key \<Rightarrow> event list \<Rightarrow> bool" where
  "downloadAttempted k l = (Downloaded k \<in> set l \<or> ErrorDownloading k \<in> set l)"

definition downloadScheduled :: "key \<Rightarrow> event list \<Rightarrow> bool" where
  "downloadScheduled k l = (downloadAttempted k l \<or> WouldDownload k \<in> set l)"

definition uploadAttempted :: "Config \<Rightarrow> key \<Rightarrow> event list \<Rightarrow> exn option \<Rightarrow> bool" where
  "uploadAttempted cfg k l t =
     (Uploaded k \<in> set l \<or> ErrorUploading k \<in> set l \<or>
      t = Some (ReadFileSyncFailed (path_join (localFolderPath cfg) k)))"

definition uploadScheduled :: "Config \<Rightarrow> key \<Rightarrow> event list \<Rightarrow> exn option \<Rightarrow> bool" where
  "uploadScheduled cfg k l t = (uploadAttempted cfg k l t \<or> WouldUpload k \<in> set l)"

definition deleteFromS3Attempted :: "key \<Rightarrow> event list \<Rightarrow> bool" where
  "deleteFromS3Attempted k l = (DeletedFromS3 k \<in> set l \<or> ErrorDeletingFromS3 k \<in> set l)"

fun isOperation :: "event \<Rightarrow> bool" where
  "isOperation (Uploaded k) = True"
| "isOperation (ErrorUploading k) = True"
| "isOperation (Downloaded k) = True"
| "isOperation (ErrorDownloading k) = True"
| "isOperation (DeletedFromS3 k) = True"
| "isOperation (ErrorDeletingFromS3 k) = True"
| "isOperation (DeletedLocally k) = True"
| "isOperation (ErrorDeletingLocally k) = True"
| "isOperation e = False"

fun isError :: "event \<Rightarrow> bool" where
  "isError (ErrorUploading k) = True"
| "isError (ErrorDownloading k) = True"
| "isError (ErrorDeletingFromS3 k) = True"
| "isError (ErrorDeletingLocally k) = True"
| "isError ErrorSyncingS3ToLocal = True"
| "isError (ErrorAdding k) = True"
| "isError (ErrorChanging k) = True"
| "isError (ErrorDeletingWatched k) = True"
| "isError e = False"

text \<open>An operation succeeded when it wrote its success line and nothing else, and did not
  throw.\<close>

definition uploadSucceeded :: "Config \<Rightarrow> Env \<Rightarrow> string \<Rightarrow> Sys \<Rightarrow> bool" where
  "uploadSucceeded cfg env filePath st =
     (thrown (uploadToS3 cfg env filePath st) = None \<and>
      newEvents st (final (uploadToS3 cfg env filePath st)) =
        [Uploaded (path_relative env (localFolderPath cfg) filePath)])"

definition downloadSucceeded :: "Config \<Rightarrow> Env \<Rightarrow> key \<Rightarrow> Sys \<Rightarrow> bool" where
  "downloadSucceeded cfg env k st =
     (newEvents st (downloadFromS3 cfg env k st) = [Downloaded k])"

definition deleteFromS3Succeeded :: "Env \<Rightarrow> key \<Rightarrow> Sys \<Rightarrow> bool" where
  "deleteFromS3Succeeded env k st = (newEvents st (deleteFromS3 env k st) = [DeletedFromS3 k])"

definition deleteLocalSucceeded :: "Config \<Rightarrow> Env \<Rightarrow> key \<Rightarrow> Sys \<Rightarrow> bool" where
  "deleteLocalSucceeded cfg env k st =
     (newEvents st (deleteLocal cfg env k st) =
        [DeletedLocally (path_join (localFolderPath cfg) k)])"

text \<open>The keys of a map are distinct.\<close>

definition wellFormed :: "Sys \<Rightarrow> bool" where
  "wellFormed st = (distinct (map fst (localState st)) \<and> distinct (map fst (s3State st)))"

text \<open>
  A key is a normalised relative path when the engine gets it back from the path it makes
  of it: \<^verbatim>\<open>path.relative(root, path.join(root, key))\<close> is \<^verbatim>\<open>key\<close>. The names that the scan of
  the folder and the watcher produce are such; a key of the bucket is any string, and
  \<^verbatim>\<open>/a.txt\<close> or \<^verbatim>\<open>docs//a.txt\<close> are not.
\<close>

definition canonical :: "Config \<Rightarrow> Env \<Rightarrow> key \<Rightarrow> bool" where
  "canonical cfg env k =
     (path_relative env (localFolderPath cfg) (path_join (localFolderPath cfg) k) = k)"

definition canonicalKeys :: "Config \<Rightarrow> Env \<Rightarrow> Sys \<Rightarrow> bool" where
  "canonicalKeys cfg env st =
     (list_all (canonical cfg env) (map fst (localState st)) \<and>
      list_all (canonical cfg env) (map fst (s3State st)))"

text \<open>The file that the engine reads and writes for a key.\<close>

definition fileOf :: "Config \<Rightarrow> Env \<Rightarrow> key \<Rightarrow> absolutePath" where
  "fileOf cfg env k = path_resolve env (path_join (localFolderPath cfg) k)"

text \<open>\<^verbatim>\<open>localState\<close> describes the folder: every entry of the map is a file of the folder
  whose digest is the recorded one. The start-up scan leaves it so (\<open>scans_establish\<close>
  below).\<close>

definition localMatchesDisk :: "Config \<Rightarrow> Env \<Rightarrow> Sys \<Rightarrow> bool" where
  "localMatchesDisk cfg env st =
     list_all (\<lambda>(k, f). case disk st (fileOf cfg env k) of
                           None \<Rightarrow> False
                         | Some c \<Rightarrow> digest env c = md5 f)
       (localState st)"

text \<open>The same, read through \<^verbatim>\<open>Map.get\<close>: the form the loops preserve.\<close>

definition describesFolder :: "Config \<Rightarrow> Env \<Rightarrow> Sys \<Rightarrow> bool" where
  "describesFolder cfg env st =
     (\<forall>k f. Map_get (localState st) k = Some f \<longrightarrow>
        (\<exists>c. disk st (fileOf cfg env k) = Some c \<and> digest env c = md5 f))"

text \<open>Both maps hold the same paths, with the same fingerprint on both sides.\<close>

definition inSync :: "Sys \<Rightarrow> bool" where
  "inSync st =
     (set (map fst (localState st)) = set (map fst (s3State st)) \<and>
      (\<forall>k f g. Map_get (localState st) k = Some f \<and> Map_get (s3State st) k = Some g
         \<longrightarrow> md5 f = md5 g))"

text \<open>The re-listing holds an entry for the path that is newer than the timestamp.\<close>

definition listedNewer :: "Env \<Rightarrow> key \<Rightarrow> timestamp \<Rightarrow> bool" where
  "listedNewer env p t =
     (case listObjects env of
        ListResolved (Some contents) \<Rightarrow>
          (\<exists>object \<in> set contents. Key object = p \<and> t < LastModified object)
      | _ \<Rightarrow> False)"

text \<open>The keys that the re-listing names.\<close>

definition listedKeys :: "Env \<Rightarrow> key list" where
  "listedKeys env =
     (case listObjects env of
        ListResolved (Some contents) \<Rightarrow> map Key contents
      | _ \<Rightarrow> [])"

text \<open>The console only grows: the later state's console is the earlier one's followed by
  the new lines.\<close>

definition grows :: "Sys \<Rightarrow> Sys \<Rightarrow> bool" where
  "grows st st' = (console st' = console st @ newEvents st st')"

text \<open>Between the two states no operation was executed: the console gained no line of an
  upload, a download or a delete, and both maps, the folder and the bucket are as they
  were.\<close>

definition quiet :: "Sys \<Rightarrow> Sys \<Rightarrow> bool" where
  "quiet st st' =
     (grows st st' \<and> list_all (\<lambda>e. \<not> isOperation e) (newEvents st st') \<and>
      localState st' = localState st \<and> s3State st' = s3State st \<and>
      disk st' = disk st \<and> bucket st' = bucket st \<and> now st' = now st)"

subsection \<open>The phases of the initial pass\<close>

text \<open>The state after the download loop, the outcome of the upload loop that follows it,
  and the state after the two delete loops.\<close>

definition afterDownloads :: "Config \<Rightarrow> Env \<Rightarrow> Sys \<Rightarrow> Sys" where
  "afterDownloads cfg env st =
     performInitialSync_downloads cfg env (s3State st) (logLine PerformingInitialSync st)"

definition afterUploads :: "Config \<Rightarrow> Env \<Rightarrow> Sys \<Rightarrow> outcome" where
  "afterUploads cfg env st =
     performInitialSync_uploads cfg env (localState (afterDownloads cfg env st))
       (afterDownloads cfg env st)"

definition afterDeletes :: "Config \<Rightarrow> Env \<Rightarrow> Sys \<Rightarrow> Sys" where
  "afterDeletes cfg env st3 =
     (let st4 = performInitialSync_deletesS3 cfg env (map fst (s3State st3)) st3
      in performInitialSync_deletesLocal cfg env (map fst (localState st4)) st4)"

text \<open>After the download loop of the initial pass, the fingerprint recorded locally for the
  path still differs from the one recorded for the bucket (or one of the two is missing):
  the test the upload loop makes for that path.\<close>

definition differsAfterDownloads :: "Config \<Rightarrow> Env \<Rightarrow> Sys \<Rightarrow> key \<Rightarrow> bool" where
  "differsAfterDownloads cfg env st p =
     (case (Map_get (localState (afterDownloads cfg env st)) p, Map_get (s3State st) p) of
        (Some f, Some g) \<Rightarrow> md5 f \<noteq> md5 g
      | _ \<Rightarrow> True)"

subsection \<open>The loop bodies\<close>

text \<open>One iteration of each loop, named so that a loop is its body applied along the
  list; and the operation and the name that a console line speaks of.\<close>

definition downloadStep :: "Config \<Rightarrow> Env \<Rightarrow> key \<Rightarrow> FileState \<Rightarrow> Sys \<Rightarrow> Sys" where
  "downloadStep cfg env k s3File st =
     (if (case Map_get (localState st) k of None \<Rightarrow> True
          | Some localFile \<Rightarrow> md5 localFile \<noteq> md5 s3File)
      then (if isDryRun cfg then logLine (WouldDownload k) st else downloadFromS3 cfg env k st)
      else st)"

definition uploadStep :: "Config \<Rightarrow> Env \<Rightarrow> key \<Rightarrow> FileState \<Rightarrow> Sys \<Rightarrow> outcome" where
  "uploadStep cfg env k localFile st =
     (if (case Map_get (s3State st) k of None \<Rightarrow> True
          | Some s3File \<Rightarrow> md5 localFile \<noteq> md5 s3File)
      then (if isDryRun cfg then Inr (logLine (WouldUpload k) st)
            else uploadToS3 cfg env (path_join (localFolderPath cfg) k) st)
      else Inr st)"

definition deleteS3Step :: "Config \<Rightarrow> Env \<Rightarrow> key \<Rightarrow> Sys \<Rightarrow> Sys" where
  "deleteS3Step cfg env k st =
     (if \<not> Map_has (localState st) k
      then (if isDryRun cfg then logLine (WouldDeleteFromS3 k) st else deleteFromS3 env k st)
      else st)"

definition deleteLocalStep :: "Config \<Rightarrow> Env \<Rightarrow> key \<Rightarrow> Sys \<Rightarrow> Sys" where
  "deleteLocalStep cfg env k st =
     (if \<not> Map_has (s3State st) k
      then (if isDryRun cfg then logLine (WouldDeleteLocally k) st
            else deleteLocal cfg env k st)
      else st)"

definition listStep :: "Config \<Rightarrow> Env \<Rightarrow> S3Object \<Rightarrow> Sys \<Rightarrow> Sys" where
  "listStep cfg env object st =
     (if (case Map_get (localState st) (Key object) of None \<Rightarrow> True
          | Some f \<Rightarrow> lastModified f < LastModified object)
      then downloadFromS3 cfg env (Key object) st else st)"

text \<open>The periodic pass runs the loops of the initial pass as they are with dry-run
  off.\<close>

definition forReal :: "Config \<Rightarrow> Config" where
  "forReal cfg = cfg\<lparr>isDryRun := False\<rparr>"

datatype operation = Download | Upload | DeleteFromS3 | DeleteLocal

fun operationOf :: "event \<Rightarrow> operation option" where
  "operationOf (Downloaded k) = Some Download"
| "operationOf (ErrorDownloading k) = Some Download"
| "operationOf (WouldDownload k) = Some Download"
| "operationOf (Uploaded k) = Some Upload"
| "operationOf (ErrorUploading k) = Some Upload"
| "operationOf (WouldUpload k) = Some Upload"
| "operationOf (DeletedFromS3 k) = Some DeleteFromS3"
| "operationOf (ErrorDeletingFromS3 k) = Some DeleteFromS3"
| "operationOf (WouldDeleteFromS3 k) = Some DeleteFromS3"
| "operationOf (DeletedLocally k) = Some DeleteLocal"
| "operationOf (ErrorDeletingLocally k) = Some DeleteLocal"
| "operationOf (WouldDeleteLocally k) = Some DeleteLocal"
| "operationOf e = None"

fun nameOf :: "event \<Rightarrow> string option" where
  "nameOf (Downloaded k) = Some k"
| "nameOf (ErrorDownloading k) = Some k"
| "nameOf (WouldDownload k) = Some k"
| "nameOf (Uploaded k) = Some k"
| "nameOf (ErrorUploading k) = Some k"
| "nameOf (WouldUpload k) = Some k"
| "nameOf (DeletedFromS3 k) = Some k"
| "nameOf (ErrorDeletingFromS3 k) = Some k"
| "nameOf (WouldDeleteFromS3 k) = Some k"
| "nameOf (DeletedLocally k) = Some k"
| "nameOf (ErrorDeletingLocally k) = Some k"
| "nameOf (WouldDeleteLocally k) = Some k"
| "nameOf e = None"

text \<open>Every new line belongs to operation \<open>op\<close> and names a member of \<open>K\<close>.\<close>

definition linesOf :: "operation \<Rightarrow> string set \<Rightarrow> Sys \<Rightarrow> Sys \<Rightarrow> bool" where
  "linesOf op K st st' =
     (grows st st' \<and>
      (\<forall>e \<in> set (newEvents st st'). operationOf e = Some op \<and> (\<exists>k \<in> K. nameOf e = Some k)))"

definition uploadLine :: "key \<Rightarrow> event list \<Rightarrow> bool" where
  "uploadLine k l = (Uploaded k \<in> set l \<or> ErrorUploading k \<in> set l \<or> WouldUpload k \<in> set l)"

subsection \<open>Concrete scenarios\<close>

text \<open>An environment in which no call fails, one in which every call but
  \<^verbatim>\<open>fs.readFileSync\<close> fails, the folder \<^verbatim>\<open>/data\<close>, and a folder and a bucket that disagree
  on \<^verbatim>\<open>c.txt\<close>.\<close>

definition never :: "string \<Rightarrow> bool" where
  "never k = False"

definition always :: "string \<Rightarrow> bool" where
  "always k = True"

definition demoDigest :: "content \<Rightarrow> string" where
  "demoDigest c = CHR ''#'' # c"

definition reliable :: Env where
  "reliable = \<lparr>cwd = [''srv''], digest = demoDigest, listObjects = ListResolved None,
     readdir = Some [], isDirectory = never, mtime = length,
     readFails = never, hashFails = never, writeFails = never, unlinkFails = never,
     putFails = never, getFails = never, deleteFails = never\<rparr>"

definition unreliable :: Env where
  "unreliable = \<lparr>cwd = [''srv''], digest = demoDigest, listObjects = ListRejected,
     readdir = None, isDirectory = never, mtime = length,
     readFails = never, hashFails = always, writeFails = always, unlinkFails = always,
     putFails = always, getFails = always, deleteFails = always\<rparr>"

definition realRun :: Config where
  "realRun = \<lparr>isDryRun = False, localFolderPath = ''/data''\<rparr>"

definition dryRun :: Config where
  "dryRun = \<lparr>isDryRun = True, localFolderPath = ''/data''\<rparr>"

definition demoFolder :: "absolutePath \<Rightarrow> content option" where
  "demoFolder = [[''data'', ''a.txt''] \<mapsto> ''A'', [''data'', ''c.txt''] \<mapsto> ''C1'']"

definition demoBucket :: "key \<Rightarrow> content option" where
  "demoBucket = [''b.txt'' \<mapsto> ''B'', ''c.txt'' \<mapsto> ''C2'']"

definition demo :: Sys where
  "demo = \<lparr>localState =
       [(''a.txt'', \<lparr>path = ''a.txt'', md5 = ''#A'', lastModified = 10\<rparr>),
        (''c.txt'', \<lparr>path = ''c.txt'', md5 = ''#C1'', lastModified = 20\<rparr>)],
     s3State =
       [(''b.txt'', \<lparr>path = ''b.txt'', md5 = ''#B'', lastModified = 30\<rparr>),
        (''c.txt'', \<lparr>path = ''c.txt'', md5 = ''#C2'', lastModified = 40\<rparr>)],
     disk = demoFolder, bucket = demoBucket, now = 100, console = []\<rparr>"

definition demoSynced :: Sys where
  "demoSynced = \<lparr>localState =
       [(''a.txt'', \<lparr>path = ''a.txt'', md5 = ''#A'', lastModified = 10\<rparr>),
        (''c.txt'', \<lparr>path = ''c.txt'', md5 = ''#C2'', lastModified = 100\<rparr>),
        (''b.txt'', \<lparr>path = ''b.txt'', md5 = ''#B'', lastModified = 100\<rparr>)],
     s3State =
       [(''b.txt'', \<lparr>path = ''b.txt'', md5 = ''#B'', lastModified = 30\<rparr>),
        (''c.txt'', \<lparr>path = ''c.txt'', md5 = ''#C2'', lastModified = 40\<rparr>),
        (''a.txt'', \<lparr>path = ''a.txt'', md5 = ''#A'', lastModified = 100\<rparr>)],
     disk = demoFolder([''data'', ''b.txt''] \<mapsto> ''B'', [''data'', ''c.txt''] \<mapsto> ''C2''),
     bucket = demoBucket(''a.txt'' \<mapsto> ''A''),
     now = 100,
     console = [PerformingInitialSync, Downloaded ''b.txt'', Downloaded ''c.txt'',
       Uploaded ''a.txt'', InitialSyncCompleted]\<rparr>"

text \<open>A folder and a bucket with no path in common, before and after a full pass.\<close>

definition apart :: Sys where
  "apart = \<lparr>localState =
       [(''a.txt'', \<lparr>path = ''a.txt'', md5 = ''#A'', lastModified = 10\<rparr>)],
     s3State =
       [(''b.txt'', \<lparr>path = ''b.txt'', md5 = ''#B'', lastModified = 30\<rparr>)],
     disk = [[''data'', ''a.txt''] \<mapsto> ''A''], bucket = [''b.txt'' \<mapsto> ''B''],
     now = 100, console = []\<rparr>"

definition apartSynced :: Sys where
  "apartSynced = \<lparr>localState =
       [(''a.txt'', \<lparr>path = ''a.txt'', md5 = ''#A'', lastModified = 10\<rparr>),
        (''b.txt'', \<lparr>path = ''b.txt'', md5 = ''#B'', lastModified = 100\<rparr>)],
     s3State =
       [(''b.txt'', \<lparr>path = ''b.txt'', md5 = ''#B'', lastModified = 30\<rparr>),
        (''a.txt'', \<lparr>path = ''a.txt'', md5 = ''#A'', lastModified = 100\<rparr>)],
     disk = [[''data'', ''a.txt''] \<mapsto> ''A'', [''data'', ''b.txt''] \<mapsto> ''B''],
     bucket = [''b.txt'' \<mapsto> ''B'', ''a.txt'' \<mapsto> ''A''],
     now = 100,
     console = [PerformingInitialSync, Downloaded ''b.txt'', Uploaded ''a.txt'',
       InitialSyncCompleted]\<rparr>"

text \<open>The bucket lists its one object, \<^verbatim>\<open>b.txt\<close>.\<close>

definition listedB :: S3Object where
  "listedB = \<lparr>Key = ''b.txt'', ETag = ''#B'', LastModified = 30\<rparr>"

definition listingB :: Env where
  "listingB = reliable\<lparr>listObjects := ListResolved (Some [listedB])\<rparr>"

text \<open>After a restart: the file was uploaded by an earlier run, so the bucket's copy is the
  newer one, with the same content.\<close>

definition restarted :: Sys where
  "restarted = \<lparr>localState =
       [(''c.txt'', \<lparr>path = ''c.txt'', md5 = ''#C'', lastModified = 1\<rparr>)],
     s3State =
       [(''c.txt'', \<lparr>path = ''c.txt'', md5 = ''#C'', lastModified = 2\<rparr>)],
     disk = [[''data'', ''c.txt''] \<mapsto> ''C''], bucket = [''c.txt'' \<mapsto> ''C''],
     now = 100, console = []\<rparr>"

definition listedC :: S3Object where
  "listedC = \<lparr>Key = ''c.txt'', ETag = ''#C'', LastModified = 2\<rparr>"

definition relisting :: Env where
  "relisting = reliable\<lparr>listObjects := ListResolved (Some [listedC])\<rparr>"

text \<open>\<^verbatim>\<open>a.txt\<close> was scanned into \<^verbatim>\<open>localState\<close> and removed from the folder before the pass
  reaches it; \<^verbatim>\<open>b.txt\<close> is still there.\<close>

definition vanished :: Sys where
  "vanished = \<lparr>localState =
       [(''a.txt'', \<lparr>path = ''a.txt'', md5 = ''#A'', lastModified = 10\<rparr>),
        (''b.txt'', \<lparr>path = ''b.txt'', md5 = ''#B'', lastModified = 20\<rparr>)],
     s3State = [],
     disk = [[''data'', ''b.txt''] \<mapsto> ''B''], bucket = Map.empty,
     now = 100, console = []\<rparr>"

text \<open>
  The bucket holds an object under the key \<^verbatim>\<open>/a.txt\<close>, the folder a file \<^verbatim>\<open>a.txt\<close>: two
  keys, and \<^verbatim>\<open>path.join\<close> makes of both the one file \<^verbatim>\<open>/data/a.txt\<close>. Before and after a
  full pass.
\<close>

definition aliased :: Sys where
  "aliased = \<lparr>localState =
       [(''a.txt'', \<lparr>path = ''a.txt'', md5 = ''#A'', lastModified = 10\<rparr>)],
     s3State =
       [(''/a.txt'', \<lparr>path = ''/a.txt'', md5 = ''#X'', lastModified = 30\<rparr>)],
     disk = [[''data'', ''a.txt''] \<mapsto> ''A''], bucket = [''/a.txt'' \<mapsto> ''X''],
     now = 100, console = []\<rparr>"

definition aliasedSynced :: Sys where
  "aliasedSynced = \<lparr>localState =
       [(''a.txt'', \<lparr>path = ''a.txt'', md5 = ''#A'', lastModified = 10\<rparr>),
        (''/a.txt'', \<lparr>path = ''/a.txt'', md5 = ''#X'', lastModified = 100\<rparr>)],
     s3State =
       [(''/a.txt'', \<lparr>path = ''/a.txt'', md5 = ''#X'', lastModified = 30\<rparr>),
        (''a.txt'', \<lparr>path = ''a.txt'', md5 = ''#X'', lastModified = 100\<rparr>)],
     disk = [[''data'', ''a.txt''] \<mapsto> ''X''],
     bucket = [''/a.txt'' \<mapsto> ''X'', ''a.txt'' \<mapsto> ''X''],
     now = 100,
     console = [PerformingInitialSync, Downloaded ''/a.txt'', Uploaded ''a.txt'',
       InitialSyncCompleted]\<rparr>"

text \<open>The bucket holds one object, under the key \<^verbatim>\<open>/a.txt\<close>, uploaded in parts: its tag
  is not the digest of its bytes. The folder is empty.\<close>

definition slashed :: Sys where
  "slashed = \<lparr>localState = [],
     s3State =
       [(''/a.txt'', \<lparr>path = ''/a.txt'', md5 = ''#A-2'', lastModified = 30\<rparr>)],
     disk = Map.empty, bucket = [''/a.txt'' \<mapsto> ''A''],
     now = 100, console = []\<rparr>"

text \<open>\<^verbatim>\<open>a.txt\<close> is on both sides with one fingerprint, and the bucket holds another object
  under the key \<^verbatim>\<open>/a.txt\<close>, uploaded in parts.\<close>

definition shadowed :: Sys where
  "shadowed = \<lparr>localState =
       [(''a.txt'', \<lparr>path = ''a.txt'', md5 = ''#A'', lastModified = 10\<rparr>)],
     s3State =
       [(''a.txt'', \<lparr>path = ''a.txt'', md5 = ''#A'', lastModified = 20\<rparr>),
        (''/a.txt'', \<lparr>path = ''/a.txt'', md5 = ''#X-2'', lastModified = 30\<rparr>)],
     disk = [[''data'', ''a.txt''] \<mapsto> ''A''],
     bucket = [''a.txt'' \<mapsto> ''A'', ''/a.txt'' \<mapsto> ''X''],
     now = 100, console = []\<rparr>"

text \<open>\<^verbatim>\<open>a.txt\<close> was scanned into \<^verbatim>\<open>localState\<close> and rewritten before the pass: the recorded
  digest is that of the old bytes. Before and after a full pass.\<close>

definition stale :: Sys where
  "stale = \<lparr>localState =
       [(''a.txt'', \<lparr>path = ''a.txt'', md5 = ''#OLD'', lastModified = 10\<rparr>)],
     s3State = [],
     disk = [[''data'', ''a.txt''] \<mapsto> ''NEW''], bucket = Map.empty,
     now = 100, console = []\<rparr>"

definition staleSynced :: Sys where
  "staleSynced = \<lparr>localState =
       [(''a.txt'', \<lparr>path = ''a.txt'', md5 = ''#OLD'', lastModified = 10\<rparr>)],
     s3State =
       [(''a.txt'', \<lparr>path = ''a.txt'', md5 = ''#NEW'', lastModified = 100\<rparr>)],
     disk = [[''data'', ''a.txt''] \<mapsto> ''NEW''], bucket = [''a.txt'' \<mapsto> ''NEW''],
     now = 100,
     console = [PerformingInitialSync, Uploaded ''a.txt'', InitialSyncCompleted]\<rparr>"

text \<open>\<^verbatim>\<open>localState\<close> holds two keys for the one file \<^verbatim>\<open>/data/a.txt\<close>, and the bucket holds other
  bytes under \<^verbatim>\<open>a.txt\<close>, uploaded in parts.\<close>

definition doubled :: Sys where
  "doubled = \<lparr>localState =
       [(''a.txt'', \<lparr>path = ''a.txt'', md5 = ''#A'', lastModified = 10\<rparr>),
        (''/a.txt'', \<lparr>path = ''/a.txt'', md5 = ''#A'', lastModified = 10\<rparr>)],
     s3State =
       [(''a.txt'', \<lparr>path = ''a.txt'', md5 = ''#B-2'', lastModified = 30\<rparr>)],
     disk = [[''data'', ''a.txt''] \<mapsto> ''A''], bucket = [''a.txt'' \<mapsto> ''B''],
     now = 100, console = []\<rparr>"

text \<open>\<^verbatim>\<open>c.txt\<close> is on both sides with different bytes, and the bucket's object was uploaded
  in parts: its tag is not the digest of its bytes.\<close>

definition inParts :: Sys where
  "inParts = \<lparr>localState =
       [(''c.txt'', \<lparr>path = ''c.txt'', md5 = ''#C1'', lastModified = 20\<rparr>)],
     s3State =
       [(''c.txt'', \<lparr>path = ''c.txt'', md5 = ''#C2-2'', lastModified = 40\<rparr>)],
     disk = [[''data'', ''c.txt''] \<mapsto> ''C1''], bucket = [''c.txt'' \<mapsto> ''C2''],
     now = 100, console = []\<rparr>"

text \<open>\<^verbatim>\<open>a.txt\<close> is on both sides with one fingerprint and the downloaded copy is the newer
  one; then an object appears in the bucket under the key \<^verbatim>\<open>/a.txt\<close>, and the re-listing
  names both.\<close>

definition settled :: Sys where
  "settled = \<lparr>localState =
       [(''a.txt'', \<lparr>path = ''a.txt'', md5 = ''#A'', lastModified = 100\<rparr>)],
     s3State =
       [(''a.txt'', \<lparr>path = ''a.txt'', md5 = ''#A'', lastModified = 20\<rparr>)],
     disk = [[''data'', ''a.txt''] \<mapsto> ''A''],
     bucket = [''a.txt'' \<mapsto> ''A'', ''/a.txt'' \<mapsto> ''X''],
     now = 200, console = []\<rparr>"

definition listingAlias :: Env where
  "listingAlias = reliable\<lparr>listObjects := ListResolved (Some
       [\<lparr>Key = ''a.txt'', ETag = ''#A'', LastModified = 20\<rparr>,
        \<lparr>Key = ''/a.txt'', ETag = ''#X'', LastModified = 150\<rparr>])\<rparr>"

section \<open>Properties\<close>

subsection \<open>Maps\<close>

lemma Map_get_set [simp]: "Map_get (Map_set m k v) k' = (if k' = k then Some v else Map_get m k')"
  by (induction m) (auto simp: Map_get_def)

lemma keys_Map_set [simp]: "fst ` set (Map_set m k v) = insert k (fst ` set m)"
  by (induction m k v rule: Map_set.induct) (simp_all add: insert_commute)

lemma Map_has_set [simp]: "Map_has (Map_set m k v) k' = (k' = k \<or> Map_has m k')"
  by (simp add: Map_has_def)

lemma distinct_Map_set [simp]: "distinct (map fst m) \<Longrightarrow> distinct (map fst (Map_set m k v))"
  by (induction m) auto

lemma Map_has_get: "Map_has m k = (Map_get m k \<noteq> None)"
  by (simp add: Map_has_def Map_get_def map_of_eq_None_iff)

lemma Map_get_delete [simp]: "Map_get (Map_delete m k) k' = (if k' = k then None else Map_get m k')"
  by (induction m) (auto simp: Map_get_def Map_delete_def)

lemma keys_Map_delete [simp]: "fst ` set (Map_delete m k) = fst ` set m - {k}"
  by (auto simp: Map_delete_def)

lemma distinct_Map_delete [simp]: "distinct (map fst m) \<Longrightarrow> distinct (map fst (Map_delete m k))"
  by (simp add: Map_delete_def distinct_map_filter)

lemma Map_get_entry: "distinct (map fst m) \<Longrightarrow> (k, v) \<in> set m \<Longrightarrow> Map_get m k = Some v"
  by (simp add: Map_get_def)

lemma Map_get_in: "Map_get m k = Some v \<Longrightarrow> (k, v) \<in> set m"
  by (simp add: Map_get_def map_of_SomeD)

subsection \<open>The console only grows\<close>

lemma growsI: "console st' = console st @ l \<Longrightarrow> grows st st'"
  by (simp add: grows_def newEvents_def)

lemma newEventsI: "console st' = console st @ l \<Longrightarrow> newEvents st st' = l"
  by (simp add: newEvents_def)

lemma grows_refl [simp]: "grows st st"
  by (simp add: grows_def newEvents_def)

lemma newEvents_refl [simp]: "newEvents st st = []"
  by (simp add: newEvents_def)

lemma grows_trans: "grows a b \<Longrightarrow> grows b c \<Longrightarrow> grows a c"
  by (metis append.assoc grows_def growsI)

lemma newEvents_trans:
  "grows a b \<Longrightarrow> grows b c \<Longrightarrow> newEvents a c = newEvents a b @ newEvents b c"
  by (metis append.assoc grows_def newEventsI)

lemma grows_logLine [simp]: "grows st (logLine e st)"
  by (simp add: grows_def newEvents_def logLine_def)

lemma newEvents_logLine [simp]: "newEvents st (logLine e st) = [e]"
  by (simp add: newEvents_def logLine_def)

lemma logLine_fields [simp]:
  "localState (logLine e st) = localState st"
  "s3State (logLine e st) = s3State st"
  "disk (logLine e st) = disk st"
  "bucket (logLine e st) = bucket st"
  "now (logLine e st) = now st"
  "console (logLine e st) = console st @ [e]"
  by (simp_all add: logLine_def)


subsection \<open>Paths\<close>

text \<open>\<^verbatim>\<open>path.relative\<close> sees its second argument through \<^verbatim>\<open>path.resolve\<close> only, so two
  normalised keys that name one file are one key.\<close>

lemma commonPrefix_same [simp]: "commonPrefix xs xs = length xs"
  by (induction xs) simp_all

lemma path_relative_resolved:
  "path_relative env from to =
     (if path_resolve env from = path_resolve env to then []
      else joinSegments
             (replicate (length (path_resolve env from) -
                  commonPrefix (path_resolve env from) (path_resolve env to)) ''..'' @
              drop (commonPrefix (path_resolve env from) (path_resolve env to))
                (path_resolve env to)))"
  by (simp add: path_relative_def Let_def)

lemma path_relative_cong:
  "path_resolve env a = path_resolve env b \<Longrightarrow> path_relative env r a = path_relative env r b"
  by (simp add: path_relative_resolved)

lemma canonical_relative [simp]:
  "canonical cfg env k \<Longrightarrow>
   path_relative env (localFolderPath cfg) (path_join (localFolderPath cfg) k) = k"
  by (simp add: canonical_def)

lemma fileOf_inject:
  assumes "canonical cfg env k" "canonical cfg env k'" "fileOf cfg env k = fileOf cfg env k'"
  shows "k = k'"
proof -
  have "path_relative env (localFolderPath cfg) (path_join (localFolderPath cfg) k) =
      path_relative env (localFolderPath cfg) (path_join (localFolderPath cfg) k')"
    using assms(3) unfolding fileOf_def by (rule path_relative_cong)
  then show ?thesis using assms(1,2) by (simp add: canonical_def)
qed

lemma fileOf_neq:
  "canonical cfg env k \<Longrightarrow> canonical cfg env k' \<Longrightarrow> k' \<noteq> k \<Longrightarrow>
   fileOf cfg env k' \<noteq> fileOf cfg env k"
  using fileOf_inject by blast

subsection \<open>downloadFromS3\<close>

lemma download_cases:
  "(\<exists>c. bucket st k = Some c \<and>
      downloadFromS3 cfg env k st =
        st\<lparr>disk := (disk st)(fileOf cfg env k \<mapsto> c), console := console st @ [Downloaded k],
           localState := Map_set (localState st) k
             \<lparr>path = k, md5 = digest env c, lastModified = now st\<rparr>\<rparr>)
   \<or> (ErrorDownloading k \<in> set (newEvents st (downloadFromS3 cfg env k st)) \<and>
       localState (downloadFromS3 cfg env k st) = localState st)"
  by (auto simp: downloadFromS3_def calculateMD5_def logLine_def newEvents_def Let_def fileOf_def
      split: option.splits)

lemma download_frame [simp]:
  "s3State (downloadFromS3 cfg env k st) = s3State st"
  "bucket (downloadFromS3 cfg env k st) = bucket st"
  "now (downloadFromS3 cfg env k st) = now st"
  by (auto simp: downloadFromS3_def calculateMD5_def logLine_def Let_def split: option.splits)

lemma download_grows [simp]: "grows st (downloadFromS3 cfg env k st)"
  by (auto simp: downloadFromS3_def calculateMD5_def logLine_def Let_def intro!: growsI
      split: option.splits)

lemma download_events:
  "set (newEvents st (downloadFromS3 cfg env k st)) \<subseteq> {Downloaded k, ErrorDownloading k}"
  "downloadAttempted k (newEvents st (downloadFromS3 cfg env k st))"
  by (auto simp: downloadFromS3_def calculateMD5_def logLine_def Let_def newEvents_def
      downloadAttempted_def split: option.splits)

lemma download_local_other:
  "k' \<noteq> k \<Longrightarrow>
   Map_get (localState (downloadFromS3 cfg env k st)) k' = Map_get (localState st) k'"
  by (auto simp: downloadFromS3_def calculateMD5_def logLine_def Let_def split: option.splits)

lemma download_disk_other:
  "x \<noteq> fileOf cfg env k \<Longrightarrow> disk (downloadFromS3 cfg env k st) x = disk st x"
  by (auto simp: downloadFromS3_def calculateMD5_def logLine_def Let_def fileOf_def
      split: option.splits)

lemma download_keys:
  "fst ` set (localState (downloadFromS3 cfg env k st)) \<subseteq> insert k (fst ` set (localState st))"
  "fst ` set (localState st) \<subseteq> fst ` set (localState (downloadFromS3 cfg env k st))"
  by (auto simp: downloadFromS3_def calculateMD5_def logLine_def Let_def split: option.splits)

lemma download_distinct:
  "distinct (map fst (localState st)) \<Longrightarrow>
   distinct (map fst (localState (downloadFromS3 cfg env k st)))"
  by (auto simp: downloadFromS3_def calculateMD5_def logLine_def Let_def split: option.splits)

subsection \<open>uploadToS3\<close>

lemma upload_cases:
  "(\<exists>c. disk st (path_resolve env filePath) = Some c \<and>
      uploadToS3 cfg env filePath st =
        Inr (st\<lparr>bucket := (bucket st)(path_relative env (localFolderPath cfg) filePath \<mapsto> c),
           console := console st @ [Uploaded (path_relative env (localFolderPath cfg) filePath)],
           s3State := Map_set (s3State st) (path_relative env (localFolderPath cfg) filePath)
             \<lparr>path = path_relative env (localFolderPath cfg) filePath,
              md5 = digest env c, lastModified = now st\<rparr>\<rparr>))
   \<or> (\<exists>st'. uploadToS3 cfg env filePath st = Inr st' \<and>
         ErrorUploading (path_relative env (localFolderPath cfg) filePath)
           \<in> set (newEvents st st') \<and>
         s3State st' = s3State st)
   \<or> uploadToS3 cfg env filePath st = Inl (ReadFileSyncFailed filePath, st)"
  by (auto simp: uploadToS3_def readFileSync_def calculateMD5_def logLine_def newEvents_def Let_def
      split: option.splits)

lemma upload_frame [simp]:
  "localState (final (uploadToS3 cfg env filePath st)) = localState st"
  "disk (final (uploadToS3 cfg env filePath st)) = disk st"
  "now (final (uploadToS3 cfg env filePath st)) = now st"
  by (auto simp: uploadToS3_def readFileSync_def calculateMD5_def logLine_def Let_def final_def
      split: option.splits)

lemma upload_grows [simp]: "grows st (final (uploadToS3 cfg env filePath st))"
  by (auto simp: uploadToS3_def readFileSync_def calculateMD5_def logLine_def Let_def final_def
      intro!: growsI split: option.splits)

lemma upload_events:
  "set (newEvents st (final (uploadToS3 cfg env filePath st))) \<subseteq>
     {Uploaded (path_relative env (localFolderPath cfg) filePath),
      ErrorUploading (path_relative env (localFolderPath cfg) filePath)}"
  "Uploaded (path_relative env (localFolderPath cfg) filePath)
     \<in> set (newEvents st (final (uploadToS3 cfg env filePath st))) \<or>
   ErrorUploading (path_relative env (localFolderPath cfg) filePath)
     \<in> set (newEvents st (final (uploadToS3 cfg env filePath st))) \<or>
   thrown (uploadToS3 cfg env filePath st) = Some (ReadFileSyncFailed filePath)"
  "thrown (uploadToS3 cfg env filePath st) = None \<or>
   thrown (uploadToS3 cfg env filePath st) = Some (ReadFileSyncFailed filePath)"
  by (auto simp: uploadToS3_def readFileSync_def calculateMD5_def logLine_def Let_def newEvents_def
      final_def thrown_def split: option.splits)

lemma upload_s3_other:
  "k' \<noteq> path_relative env (localFolderPath cfg) filePath \<Longrightarrow>
   Map_get (s3State (final (uploadToS3 cfg env filePath st))) k' = Map_get (s3State st) k'"
  by (auto simp: uploadToS3_def readFileSync_def calculateMD5_def logLine_def Let_def final_def
      split: option.splits)

lemma upload_bucket_other:
  "k' \<noteq> path_relative env (localFolderPath cfg) filePath \<Longrightarrow>
   bucket (final (uploadToS3 cfg env filePath st)) k' = bucket st k'"
  by (auto simp: uploadToS3_def readFileSync_def calculateMD5_def logLine_def Let_def final_def
      split: option.splits)

lemma upload_keys:
  "fst ` set (s3State (final (uploadToS3 cfg env filePath st))) \<subseteq>
     insert (path_relative env (localFolderPath cfg) filePath) (fst ` set (s3State st))"
  "fst ` set (s3State st) \<subseteq> fst ` set (s3State (final (uploadToS3 cfg env filePath st)))"
  by (auto simp: uploadToS3_def readFileSync_def calculateMD5_def logLine_def Let_def final_def
      split: option.splits)

lemma upload_distinct:
  "distinct (map fst (s3State st)) \<Longrightarrow>
   distinct (map fst (s3State (final (uploadToS3 cfg env filePath st))))"
  by (auto simp: uploadToS3_def readFileSync_def calculateMD5_def logLine_def Let_def final_def
      split: option.splits)

subsection \<open>deleteFromS3 and deleteLocal\<close>

lemma deleteFromS3_frame [simp]:
  "localState (deleteFromS3 env k st) = localState st"
  "disk (deleteFromS3 env k st) = disk st"
  "now (deleteFromS3 env k st) = now st"
  by (auto simp: deleteFromS3_def logLine_def)

lemma deleteFromS3_grows [simp]: "grows st (deleteFromS3 env k st)"
  by (auto simp: deleteFromS3_def logLine_def intro!: growsI)

lemma deleteFromS3_events:
  "set (newEvents st (deleteFromS3 env k st)) \<subseteq> {DeletedFromS3 k, ErrorDeletingFromS3 k}"
  "deleteFromS3Attempted k (newEvents st (deleteFromS3 env k st))"
  by (auto simp: deleteFromS3_def logLine_def newEvents_def deleteFromS3Attempted_def)

lemma deleteFromS3_other:
  "k' \<noteq> k \<Longrightarrow> Map_get (s3State (deleteFromS3 env k st)) k' = Map_get (s3State st) k'"
  "k' \<noteq> k \<Longrightarrow> bucket (deleteFromS3 env k st) k' = bucket st k'"
  by (auto simp: deleteFromS3_def logLine_def)

lemma deleteFromS3_keys:
  "fst ` set (s3State (deleteFromS3 env k st)) \<subseteq> fst ` set (s3State st)"
  by (auto simp: deleteFromS3_def logLine_def)

lemma deleteFromS3_distinct:
  "distinct (map fst (s3State st)) \<Longrightarrow> distinct (map fst (s3State (deleteFromS3 env k st)))"
  by (auto simp: deleteFromS3_def logLine_def)

lemma deleteLocal_frame [simp]:
  "s3State (deleteLocal cfg env k st) = s3State st"
  "bucket (deleteLocal cfg env k st) = bucket st"
  "now (deleteLocal cfg env k st) = now st"
  by (auto simp: deleteLocal_def logLine_def Let_def)

lemma deleteLocal_grows [simp]: "grows st (deleteLocal cfg env k st)"
  by (auto simp: deleteLocal_def logLine_def Let_def intro!: growsI)

lemma deleteLocal_events:
  "set (newEvents st (deleteLocal cfg env k st)) \<subseteq>
     {DeletedLocally (path_join (localFolderPath cfg) k),
      ErrorDeletingLocally (path_join (localFolderPath cfg) k)}"
  by (auto simp: deleteLocal_def logLine_def newEvents_def Let_def)

lemma deleteLocal_other:
  "k' \<noteq> k \<Longrightarrow>
   Map_get (localState (deleteLocal cfg env k st)) k' = Map_get (localState st) k'"
  "x \<noteq> fileOf cfg env k \<Longrightarrow> disk (deleteLocal cfg env k st) x = disk st x"
  by (auto simp: deleteLocal_def logLine_def Let_def fileOf_def)

lemma deleteLocal_keys:
  "fst ` set (localState (deleteLocal cfg env k st)) \<subseteq> fst ` set (localState st)"
  by (auto simp: deleteLocal_def logLine_def Let_def)

lemma deleteLocal_distinct:
  "distinct (map fst (localState st)) \<Longrightarrow>
   distinct (map fst (localState (deleteLocal cfg env k st)))"
  by (auto simp: deleteLocal_def logLine_def Let_def)

subsection \<open>The loops of the initial pass, one iteration at a time\<close>

lemma downloads_Cons:
  "performInitialSync_downloads cfg env ((k, f) # rest) st =
     performInitialSync_downloads cfg env rest (downloadStep cfg env k f st)"
  by (simp add: downloadStep_def)

lemma downloadStep_frame [simp]:
  "s3State (downloadStep cfg env k f st) = s3State st"
  "bucket (downloadStep cfg env k f st) = bucket st"
  "now (downloadStep cfg env k f st) = now st"
  "grows st (downloadStep cfg env k f st)"
  by (simp_all add: downloadStep_def)

lemma downloadStep_events:
  "set (newEvents st (downloadStep cfg env k f st)) \<subseteq>
     {Downloaded k, ErrorDownloading k, WouldDownload k}"
  using download_events(1) [where st = st and env = env and k = k]
  by (auto simp: downloadStep_def)

lemma downloadStep_other:
  "k' \<noteq> k \<Longrightarrow> Map_get (localState (downloadStep cfg env k f st)) k' = Map_get (localState st) k'"
  "x \<noteq> fileOf cfg env k \<Longrightarrow> disk (downloadStep cfg env k f st) x = disk st x"
  by (simp_all add: downloadStep_def download_local_other download_disk_other)

lemma downloadStep_keys:
  "fst ` set (localState (downloadStep cfg env k f st)) \<subseteq> insert k (fst ` set (localState st))"
  "fst ` set (localState st) \<subseteq> fst ` set (localState (downloadStep cfg env k f st))"
  using download_keys [where st = st and env = env and k = k]
  by (auto simp: downloadStep_def)

lemma downloadStep_distinct:
  "distinct (map fst (localState st)) \<Longrightarrow>
   distinct (map fst (localState (downloadStep cfg env k f st)))"
  by (simp add: downloadStep_def download_distinct)

lemma downloads_frame [simp]:
  "s3State (performInitialSync_downloads cfg env es st) = s3State st"
  "bucket (performInitialSync_downloads cfg env es st) = bucket st"
  "now (performInitialSync_downloads cfg env es st) = now st"
  by (induction es arbitrary: st;
      auto simp add: downloads_Cons simp del: performInitialSync_downloads.simps(2))+

lemma final_simps [simp]: "final (Inr st) = st" "final (Inl (e, st)) = st"
  by (simp_all add: final_def)

lemma thrown_simps [simp]: "thrown (Inr st) = None" "thrown (Inl (e, st)) = Some e"
  by (simp_all add: thrown_def)

lemma uploads_Cons:
  "performInitialSync_uploads cfg env ((k, f) # rest) st =
     (case uploadStep cfg env k f st of
        Inl t \<Rightarrow> Inl t
      | Inr st' \<Rightarrow> performInitialSync_uploads cfg env rest st')"
  by (simp add: uploadStep_def)

lemma uploadStep_frame [simp]:
  "localState (final (uploadStep cfg env k f st)) = localState st"
  "disk (final (uploadStep cfg env k f st)) = disk st"
  "now (final (uploadStep cfg env k f st)) = now st"
  "grows st (final (uploadStep cfg env k f st))"
  by (simp_all add: uploadStep_def)

lemma uploadStep_events:
  "canonical cfg env k \<Longrightarrow>
   set (newEvents st (final (uploadStep cfg env k f st))) \<subseteq>
     {Uploaded k, ErrorUploading k, WouldUpload k}"
  "thrown (uploadStep cfg env k f st) = None \<or>
   thrown (uploadStep cfg env k f st) =
     Some (ReadFileSyncFailed (path_join (localFolderPath cfg) k))"
  using upload_events(1,3) [where st = st and env = env and cfg = cfg
      and filePath = "path_join (localFolderPath cfg) k"]
  by (auto simp: uploadStep_def)

lemma uploadStep_other:
  "canonical cfg env k \<Longrightarrow> k' \<noteq> k \<Longrightarrow>
     Map_get (s3State (final (uploadStep cfg env k f st))) k' = Map_get (s3State st) k'"
  "canonical cfg env k \<Longrightarrow> k' \<noteq> k \<Longrightarrow>
     bucket (final (uploadStep cfg env k f st)) k' = bucket st k'"
  by (simp_all add: uploadStep_def upload_s3_other upload_bucket_other)

lemma uploadStep_keys:
  "canonical cfg env k \<Longrightarrow>
   fst ` set (s3State (final (uploadStep cfg env k f st))) \<subseteq> insert k (fst ` set (s3State st))"
  "fst ` set (s3State st) \<subseteq> fst ` set (s3State (final (uploadStep cfg env k f st)))"
  using upload_keys [where st = st and env = env and cfg = cfg
      and filePath = "path_join (localFolderPath cfg) k"]
  by (auto simp: uploadStep_def)

lemma uploadStep_distinct:
  "distinct (map fst (s3State st)) \<Longrightarrow>
   distinct (map fst (s3State (final (uploadStep cfg env k f st))))"
  by (simp add: uploadStep_def upload_distinct)

lemma uploadStep_Inl:
  "uploadStep cfg env k f st = Inl t \<Longrightarrow>
   t = (ReadFileSyncFailed (path_join (localFolderPath cfg) k), st)"
  using upload_cases [of st env "path_join (localFolderPath cfg) k" cfg]
  by (auto simp: uploadStep_def split: if_splits)

subsection \<open>Invariants of the loops\<close>

lemma downloads_rule:
  assumes "P st"
    and "\<And>k f s. (k, f) \<in> set es \<Longrightarrow> P s \<Longrightarrow> P (downloadStep cfg env k f s)"
  shows "P (performInitialSync_downloads cfg env es st)"
  using assms
proof (induction es arbitrary: st)
  case Nil
  then show ?case by simp
next
  case (Cons e es)
  obtain k f where e: "e = (k, f)" by (cases e)
  have "P (downloadStep cfg env k f st)"
    using Cons.prems e by simp
  then have "P (performInitialSync_downloads cfg env es (downloadStep cfg env k f st))"
    using Cons.IH Cons.prems(2) by simp
  then show ?case
    by (simp only: e downloads_Cons)
qed

lemma uploads_rule:
  assumes "P st"
    and "\<And>k f s. (k, f) \<in> set es \<Longrightarrow> P s \<Longrightarrow> P (final (uploadStep cfg env k f s))"
  shows "P (final (performInitialSync_uploads cfg env es st))"
  using assms
proof (induction es arbitrary: st)
  case Nil
  then show ?case by simp
next
  case (Cons e es)
  obtain k f where e: "e = (k, f)" by (cases e)
  have step: "P (final (uploadStep cfg env k f st))"
    using Cons.prems e by simp
  show ?case
  proof (cases "uploadStep cfg env k f st")
    case (Inl t)
    then show ?thesis
      using step by (cases t) (simp add: e uploads_Cons del: performInitialSync_uploads.simps(2))
  next
    case (Inr st1)
    then have "P st1" using step by simp
    then have "P (final (performInitialSync_uploads cfg env es st1))"
      using Cons.IH Cons.prems(2) by simp
    then show ?thesis
      using Inr by (simp add: e uploads_Cons del: performInitialSync_uploads.simps(2))
  qed
qed

lemma uploads_thrown:
  "thrown (performInitialSync_uploads cfg env es st) = None \<or>
   (\<exists>k \<in> fst ` set es. thrown (performInitialSync_uploads cfg env es st) =
      Some (ReadFileSyncFailed (path_join (localFolderPath cfg) k)))"
proof (induction es arbitrary: st)
  case Nil
  then show ?case by simp
next
  case (Cons e es)
  obtain k f where e: "e = (k, f)" by (cases e)
  show ?case
  proof (cases "uploadStep cfg env k f st")
    case (Inl t)
    then show ?thesis
      using uploadStep_Inl [OF Inl]
      by (simp add: e uploads_Cons del: performInitialSync_uploads.simps(2))
  next
    case (Inr st1)
    then show ?thesis
      using Cons.IH [of st1]
      by (auto simp add: e uploads_Cons simp del: performInitialSync_uploads.simps(2))
  qed
qed

lemma deletesS3_Cons:
  "performInitialSync_deletesS3 cfg env (k # rest) st =
     performInitialSync_deletesS3 cfg env rest (deleteS3Step cfg env k st)"
  by (simp add: deleteS3Step_def)

lemma deletesLocal_Cons:
  "performInitialSync_deletesLocal cfg env (k # rest) st =
     performInitialSync_deletesLocal cfg env rest (deleteLocalStep cfg env k st)"
  by (simp add: deleteLocalStep_def)

lemma deletesS3_rule:
  assumes "P st"
    and "\<And>k s. k \<in> set ks \<Longrightarrow> P s \<Longrightarrow> P (deleteS3Step cfg env k s)"
  shows "P (performInitialSync_deletesS3 cfg env ks st)"
  using assms
  by (induction ks arbitrary: st)
    (simp_all add: deletesS3_Cons del: performInitialSync_deletesS3.simps(2))

lemma deletesLocal_rule:
  assumes "P st"
    and "\<And>k s. k \<in> set ks \<Longrightarrow> P s \<Longrightarrow> P (deleteLocalStep cfg env k s)"
  shows "P (performInitialSync_deletesLocal cfg env ks st)"
  using assms
  by (induction ks arbitrary: st)
    (simp_all add: deletesLocal_Cons del: performInitialSync_deletesLocal.simps(2))

lemma deleteS3Step_frame [simp]:
  "localState (deleteS3Step cfg env k st) = localState st"
  "disk (deleteS3Step cfg env k st) = disk st"
  "now (deleteS3Step cfg env k st) = now st"
  "grows st (deleteS3Step cfg env k st)"
  by (simp_all add: deleteS3Step_def)

lemma deleteLocalStep_frame [simp]:
  "s3State (deleteLocalStep cfg env k st) = s3State st"
  "bucket (deleteLocalStep cfg env k st) = bucket st"
  "now (deleteLocalStep cfg env k st) = now st"
  "grows st (deleteLocalStep cfg env k st)"
  by (simp_all add: deleteLocalStep_def)

lemma deleteS3Step_events:
  "set (newEvents st (deleteS3Step cfg env k st)) \<subseteq>
     {DeletedFromS3 k, ErrorDeletingFromS3 k, WouldDeleteFromS3 k}"
  using deleteFromS3_events(1) [where st = st and env = env and k = k]
  by (auto simp: deleteS3Step_def)

lemma deleteLocalStep_events:
  "set (newEvents st (deleteLocalStep cfg env k st)) \<subseteq>
     {DeletedLocally (path_join (localFolderPath cfg) k),
      ErrorDeletingLocally (path_join (localFolderPath cfg) k), WouldDeleteLocally k}"
  using deleteLocal_events [where st = st and env = env and k = k and cfg = cfg]
  by (auto simp: deleteLocalStep_def)

lemma deleteS3Step_idle: "Map_has (localState st) k \<Longrightarrow> deleteS3Step cfg env k st = st"
  by (simp add: deleteS3Step_def)

lemma deleteLocalStep_idle: "Map_has (s3State st) k \<Longrightarrow> deleteLocalStep cfg env k st = st"
  by (simp add: deleteLocalStep_def)

lemma deleteS3Step_other:
  "k' \<noteq> k \<Longrightarrow> Map_get (s3State (deleteS3Step cfg env k st)) k' = Map_get (s3State st) k'"
  "k' \<noteq> k \<Longrightarrow> bucket (deleteS3Step cfg env k st) k' = bucket st k'"
  by (simp_all add: deleteS3Step_def deleteFromS3_other)

lemma deleteLocalStep_other:
  "k' \<noteq> k \<Longrightarrow> Map_get (localState (deleteLocalStep cfg env k st)) k' = Map_get (localState st) k'"
  "x \<noteq> fileOf cfg env k \<Longrightarrow> disk (deleteLocalStep cfg env k st) x = disk st x"
  by (simp_all add: deleteLocalStep_def deleteLocal_other)

lemma deleteS3Step_distinct:
  "distinct (map fst (s3State st)) \<Longrightarrow> distinct (map fst (s3State (deleteS3Step cfg env k st)))"
  by (simp add: deleteS3Step_def deleteFromS3_distinct)

lemma deleteLocalStep_distinct:
  "distinct (map fst (localState st)) \<Longrightarrow>
   distinct (map fst (localState (deleteLocalStep cfg env k st)))"
  by (simp add: deleteLocalStep_def deleteLocal_distinct)

subsection \<open>What every phase leaves alone\<close>

lemma downloads_grows [simp]: "grows st (performInitialSync_downloads cfg env es st)"
  by (rule downloads_rule) (auto intro: grows_trans)

lemma uploads_grows [simp]: "grows st (final (performInitialSync_uploads cfg env es st))"
  by (rule uploads_rule) (auto intro: grows_trans)

lemma deletesS3_grows [simp]: "grows st (performInitialSync_deletesS3 cfg env ks st)"
  by (rule deletesS3_rule) (auto intro: grows_trans)

lemma deletesLocal_grows [simp]: "grows st (performInitialSync_deletesLocal cfg env ks st)"
  by (rule deletesLocal_rule) (auto intro: grows_trans)

lemma uploads_frame [simp]:
  "localState (final (performInitialSync_uploads cfg env es st)) = localState st"
  "disk (final (performInitialSync_uploads cfg env es st)) = disk st"
  "now (final (performInitialSync_uploads cfg env es st)) = now st"
  by (rule uploads_rule; simp)+

lemma deletesS3_frame [simp]:
  "localState (performInitialSync_deletesS3 cfg env ks st) = localState st"
  "disk (performInitialSync_deletesS3 cfg env ks st) = disk st"
  "now (performInitialSync_deletesS3 cfg env ks st) = now st"
  by (rule deletesS3_rule; simp)+

lemma deletesLocal_frame [simp]:
  "s3State (performInitialSync_deletesLocal cfg env ks st) = s3State st"
  "bucket (performInitialSync_deletesLocal cfg env ks st) = bucket st"
  "now (performInitialSync_deletesLocal cfg env ks st) = now st"
  by (rule deletesLocal_rule; simp)+

lemma deletesS3_idle:
  "\<forall>k \<in> set ks. Map_has (localState st) k \<Longrightarrow> performInitialSync_deletesS3 cfg env ks st = st"
  by (rule deletesS3_rule) (simp_all add: deleteS3Step_idle)

lemma deletesLocal_idle:
  "\<forall>k \<in> set ks. Map_has (s3State st) k \<Longrightarrow> performInitialSync_deletesLocal cfg env ks st = st"
  by (rule deletesLocal_rule) (simp_all add: deleteLocalStep_idle)

lemma newEvents_sub:
  assumes "grows a b" "grows b c"
  shows "set (newEvents a b) \<subseteq> set (newEvents a c)" "set (newEvents b c) \<subseteq> set (newEvents a c)"
  using newEvents_trans [OF assms] by simp_all

lemma newEvents_set:
  assumes "grows a b" "grows b c"
  shows "set (newEvents a c) = set (newEvents a b) \<union> set (newEvents b c)"
  using newEvents_trans [OF assms] by simp

lemma performInitialSync_phases:
  "performInitialSync cfg env st =
     (case afterUploads cfg env st of
        Inl t \<Rightarrow> Inl t
      | Inr st3 \<Rightarrow> Inr (logLine InitialSyncCompleted (afterDeletes cfg env st3)))"
  by (simp add: performInitialSync_def afterUploads_def afterDownloads_def afterDeletes_def Let_def
      split: sum.splits)

lemma afterDownloads_frame [simp]:
  "s3State (afterDownloads cfg env st) = s3State st"
  "bucket (afterDownloads cfg env st) = bucket st"
  "now (afterDownloads cfg env st) = now st"
  by (simp_all add: afterDownloads_def)

lemma afterDownloads_grows [simp]: "grows st (afterDownloads cfg env st)"
  unfolding afterDownloads_def by (rule grows_trans [OF grows_logLine downloads_grows])

lemma afterUploads_frame [simp]:
  "localState (final (afterUploads cfg env st)) = localState (afterDownloads cfg env st)"
  "disk (final (afterUploads cfg env st)) = disk (afterDownloads cfg env st)"
  "now (final (afterUploads cfg env st)) = now st"
  "grows (afterDownloads cfg env st) (final (afterUploads cfg env st))"
  by (simp_all add: afterUploads_def)

lemma afterUploads_grows [simp]: "grows st (final (afterUploads cfg env st))"
  by (rule grows_trans [OF afterDownloads_grows afterUploads_frame(4)])

lemma afterDeletes_grows [simp]: "grows st3 (afterDeletes cfg env st3)"
  unfolding afterDeletes_def Let_def by (rule grows_trans [OF deletesS3_grows deletesLocal_grows])

lemma downloadStep_has:
  assumes "\<not> isDryRun cfg"
    and "ErrorDownloading k \<notin> set (newEvents st (downloadStep cfg env k f st))"
  shows "Map_has (localState (downloadStep cfg env k f st)) k"
  using assms download_cases [where st = "st" and k = k and env = env and cfg = cfg]
  by (auto simp: downloadStep_def Map_has_get split: option.splits if_splits)

lemma downloads_keys_mono:
  "fst ` set (localState st) \<subseteq> fst ` set (localState (performInitialSync_downloads cfg env es st))"
proof (rule downloads_rule)
  show "fst ` set (localState st) \<subseteq> fst ` set (localState st)" by simp
next
  fix k f and s :: Sys
  assume "fst ` set (localState st) \<subseteq> fst ` set (localState s)"
  then show "fst ` set (localState st) \<subseteq> fst ` set (localState (downloadStep cfg env k f s))"
    using downloadStep_keys(2) [of s cfg env k f] by (rule subset_trans)
qed

lemma downloads_has:
  assumes "\<not> isDryRun cfg"
    and "\<forall>k. ErrorDownloading k \<notin> set (newEvents st (performInitialSync_downloads cfg env es st))"
  shows "\<forall>k \<in> fst ` set es. Map_has (localState (performInitialSync_downloads cfg env es st)) k"
  using assms(2)
proof (induction es arbitrary: st)
  case Nil
  then show ?case by simp
next
  case (Cons e es)
  obtain k f where e: "e = (k, f)" by (cases e)
  let ?st1 = "downloadStep cfg env k f st"
  let ?st' = "performInitialSync_downloads cfg env es ?st1"
  have eq: "performInitialSync_downloads cfg env (e # es) st = ?st'"
    by (simp only: e downloads_Cons)
  have ev: "set (newEvents st ?st') = set (newEvents st ?st1) \<union> set (newEvents ?st1 ?st')"
    by (rule newEvents_set) simp_all
  have no1: "ErrorDownloading k \<notin> set (newEvents st ?st1)"
    and no2: "\<forall>k. ErrorDownloading k \<notin> set (newEvents ?st1 ?st')"
    using Cons.prems ev unfolding eq by auto
  have "Map_has (localState ?st1) k"
    using downloadStep_has [OF assms(1) no1] .
  then have "Map_has (localState ?st') k"
    using downloads_keys_mono [of ?st1 cfg env es] by (auto simp: Map_has_def)
  moreover have "\<forall>k \<in> fst ` set es. Map_has (localState ?st') k"
    using Cons.IH [OF no2] .
  ultimately show ?case
    unfolding eq by (simp add: e)
qed

lemma uploads_keys:
  assumes can: "\<forall>k \<in> fst ` set es. canonical cfg env k"
  shows "fst ` set (s3State (final (performInitialSync_uploads cfg env es st)))
     \<subseteq> fst ` set (s3State st) \<union> fst ` set es"
proof (rule uploads_rule)
  show "fst ` set (s3State st) \<subseteq> fst ` set (s3State st) \<union> fst ` set es" by simp
next
  fix k f and s :: Sys
  assume kf: "(k, f) \<in> set es"
    and s: "fst ` set (s3State s) \<subseteq> fst ` set (s3State st) \<union> fst ` set es"
  have k: "k \<in> fst ` set es" using kf by force
  then have "canonical cfg env k" using can by blast
  then show "fst ` set (s3State (final (uploadStep cfg env k f s)))
      \<subseteq> fst ` set (s3State st) \<union> fst ` set es"
    using uploadStep_keys(1) [of cfg env k f s] s k by blast
qed


subsection \<open>What every phase writes to the console\<close>

lemma linesOf_refl [simp]: "linesOf op K st st"
  by (simp add: linesOf_def)

lemma linesOf_trans: "linesOf op K a b \<Longrightarrow> linesOf op K b c \<Longrightarrow> linesOf op K a c"
  unfolding linesOf_def using newEvents_set [of a b c] grows_trans [of a b c] by auto

lemma linesOf_mono: "linesOf op K a b \<Longrightarrow> K \<subseteq> K' \<Longrightarrow> linesOf op K' a b"
  unfolding linesOf_def by blast

lemma downloadStep_lines: "linesOf Download {k} st (downloadStep cfg env k f st)"
  unfolding linesOf_def using downloadStep_events [where st = st and cfg = cfg and env = env and k = k and f = f]
  by auto

lemma uploadStep_lines:
  "canonical cfg env k \<Longrightarrow> linesOf Upload {k} st (final (uploadStep cfg env k f st))"
  unfolding linesOf_def
  using uploadStep_events(1) [where st = st and cfg = cfg and env = env and k = k and f = f]
  by auto

lemma deleteS3Step_lines: "linesOf DeleteFromS3 {k} st (deleteS3Step cfg env k st)"
  unfolding linesOf_def using deleteS3Step_events [where st = st and cfg = cfg and env = env and k = k]
  by auto

lemma deleteLocalStep_lines:
  "linesOf DeleteLocal {k, path_join (localFolderPath cfg) k} st (deleteLocalStep cfg env k st)"
  unfolding linesOf_def
  using deleteLocalStep_events [where st = st and cfg = cfg and env = env and k = k]
  by auto

lemma downloads_lines:
  "linesOf Download (fst ` set es) st (performInitialSync_downloads cfg env es st)"
proof (rule downloads_rule)
  show "linesOf Download (fst ` set es) st st" by simp
next
  fix k f and s :: Sys
  assume kf: "(k, f) \<in> set es" and s: "linesOf Download (fst ` set es) st s"
  have "{k} \<subseteq> fst ` set es" using kf by force
  then have "linesOf Download (fst ` set es) s (downloadStep cfg env k f s)"
    by (rule linesOf_mono [OF downloadStep_lines])
  with s show "linesOf Download (fst ` set es) st (downloadStep cfg env k f s)"
    by (rule linesOf_trans)
qed

lemma uploads_lines:
  assumes can: "\<forall>k \<in> fst ` set es. canonical cfg env k"
  shows "linesOf Upload (fst ` set es) st (final (performInitialSync_uploads cfg env es st))"
proof (rule uploads_rule)
  show "linesOf Upload (fst ` set es) st st" by simp
next
  fix k f and s :: Sys
  assume kf: "(k, f) \<in> set es" and s: "linesOf Upload (fst ` set es) st s"
  have k: "k \<in> fst ` set es" using kf by force
  then have c: "canonical cfg env k" using can by blast
  have sub: "{k} \<subseteq> fst ` set es" using k by simp
  have "linesOf Upload (fst ` set es) s (final (uploadStep cfg env k f s))"
    by (rule linesOf_mono [OF uploadStep_lines [OF c] sub])
  with s show "linesOf Upload (fst ` set es) st (final (uploadStep cfg env k f s))"
    by (rule linesOf_trans)
qed

lemma deletesS3_lines:
  "linesOf DeleteFromS3 (set ks) st (performInitialSync_deletesS3 cfg env ks st)"
proof (rule deletesS3_rule)
  show "linesOf DeleteFromS3 (set ks) st st" by simp
next
  fix k and s :: Sys
  assume kf: "k \<in> set ks" and s: "linesOf DeleteFromS3 (set ks) st s"
  have "{k} \<subseteq> set ks" using kf by simp
  then have "linesOf DeleteFromS3 (set ks) s (deleteS3Step cfg env k s)"
    by (rule linesOf_mono [OF deleteS3Step_lines])
  with s show "linesOf DeleteFromS3 (set ks) st (deleteS3Step cfg env k s)"
    by (rule linesOf_trans)
qed

lemma deletesLocal_lines:
  "linesOf DeleteLocal (set ks \<union> path_join (localFolderPath cfg) ` set ks) st
     (performInitialSync_deletesLocal cfg env ks st)"
proof (rule deletesLocal_rule)
  show "linesOf DeleteLocal (set ks \<union> path_join (localFolderPath cfg) ` set ks) st st"
    by simp
next
  fix k and s :: Sys
  assume kf: "k \<in> set ks"
    and s: "linesOf DeleteLocal (set ks \<union> path_join (localFolderPath cfg) ` set ks) st s"
  have "{k, path_join (localFolderPath cfg) k}
      \<subseteq> set ks \<union> path_join (localFolderPath cfg) ` set ks"
    using kf by simp
  then have "linesOf DeleteLocal (set ks \<union> path_join (localFolderPath cfg) ` set ks) s
      (deleteLocalStep cfg env k s)"
    by (rule linesOf_mono [OF deleteLocalStep_lines])
  with s show "linesOf DeleteLocal (set ks \<union> path_join (localFolderPath cfg) ` set ks) st
      (deleteLocalStep cfg env k s)"
    by (rule linesOf_trans)
qed

lemma linesOf_not_deleteFromS3:
  "linesOf op K st st' \<Longrightarrow> op \<noteq> DeleteFromS3 \<Longrightarrow> \<not> deleteFromS3Attempted k (newEvents st st')"
  unfolding linesOf_def deleteFromS3Attempted_def by fastforce

lemma deleteFromS3Attempted_append [simp]:
  "deleteFromS3Attempted k (l @ l') = (deleteFromS3Attempted k l \<or> deleteFromS3Attempted k l')"
  by (auto simp: deleteFromS3Attempted_def)

lemma deleteFromS3Attempted_Cons [simp]:
  "\<not> deleteFromS3Attempted k []"
  "deleteFromS3Attempted k (e # l) =
     (e = DeletedFromS3 k \<or> e = ErrorDeletingFromS3 k \<or> deleteFromS3Attempted k l)"
  by (auto simp: deleteFromS3Attempted_def)

subsection \<open>The pass as a sequence of phases\<close>

lemma performInitialSync_final:
  "final (performInitialSync cfg env st) =
     (case afterUploads cfg env st of
        Inl t \<Rightarrow> snd t
      | Inr st3 \<Rightarrow> logLine InitialSyncCompleted (afterDeletes cfg env st3))"
  by (auto simp: performInitialSync_phases split: sum.splits)

lemma performInitialSync_thrown:
  "thrown (performInitialSync cfg env st) = thrown (afterUploads cfg env st)"
  by (auto simp: performInitialSync_phases split: sum.splits)

lemma performInitialSync_grows_uploads:
  "grows (final (afterUploads cfg env st)) (final (performInitialSync cfg env st))"
proof (cases "afterUploads cfg env st")
  case (Inl t)
  then show ?thesis by (cases t) (simp add: performInitialSync_final)
next
  case (Inr st3)
  then show ?thesis
    using grows_trans [OF afterDeletes_grows grows_logLine]
    by (simp add: performInitialSync_final)
qed

lemma performInitialSync_grows [simp]: "grows st (final (performInitialSync cfg env st))"
  by (rule grows_trans [OF afterUploads_grows performInitialSync_grows_uploads])

lemma afterDownloads_no_error:
  assumes "\<forall>k. ErrorDownloading k \<notin> set (newEvents st (final (performInitialSync cfg env st)))"
  shows "\<forall>k. ErrorDownloading k \<notin> set (newEvents (logLine PerformingInitialSync st)
            (afterDownloads cfg env st))"
proof -
  let ?st1 = "logLine PerformingInitialSync st"
  have 1: "grows ?st1 (afterDownloads cfg env st)"
    by (simp add: afterDownloads_def)
  have 2: "grows (afterDownloads cfg env st) (final (performInitialSync cfg env st))"
    by (rule grows_trans [OF afterUploads_frame(4) performInitialSync_grows_uploads])
  have "set (newEvents ?st1 (afterDownloads cfg env st))
      \<subseteq> set (newEvents ?st1 (final (performInitialSync cfg env st)))"
    by (rule newEvents_sub(1) [OF 1 2])
  also have "\<dots> \<subseteq> set (newEvents st (final (performInitialSync cfg env st)))"
    by (rule newEvents_sub(2) [OF grows_logLine grows_trans [OF 1 2]])
  finally show ?thesis using assms by blast
qed

lemma uploadScheduled_iff:
  "uploadScheduled cfg k l t =
     (uploadLine k l \<or> t = Some (ReadFileSyncFailed (path_join (localFolderPath cfg) k)))"
  by (auto simp: uploadScheduled_def uploadAttempted_def uploadLine_def)

lemma downloadScheduled_simps [simp]:
  "\<not> downloadScheduled k []"
  "downloadScheduled k (e # l) =
     (e = Downloaded k \<or> e = ErrorDownloading k \<or> e = WouldDownload k \<or> downloadScheduled k l)"
  "downloadScheduled k (l @ l') = (downloadScheduled k l \<or> downloadScheduled k l')"
  by (auto simp: downloadScheduled_def downloadAttempted_def)

lemma uploadLine_simps [simp]:
  "\<not> uploadLine k []"
  "uploadLine k (e # l) =
     (e = Uploaded k \<or> e = ErrorUploading k \<or> e = WouldUpload k \<or> uploadLine k l)"
  "uploadLine k (l @ l') = (uploadLine k l \<or> uploadLine k l')"
  by (auto simp: uploadLine_def)

lemma linesOf_not_download:
  "linesOf op K st st' \<Longrightarrow> op \<noteq> Download \<or> p \<notin> K \<Longrightarrow> \<not> downloadScheduled p (newEvents st st')"
  unfolding linesOf_def downloadScheduled_def downloadAttempted_def by fastforce

lemma linesOf_not_upload:
  "linesOf op K st st' \<Longrightarrow> op \<noteq> Upload \<or> p \<notin> K \<Longrightarrow> \<not> uploadLine p (newEvents st st')"
  unfolding linesOf_def uploadLine_def by fastforce

lemma performInitialSync_events:
  "newEvents st (final (performInitialSync cfg env st)) =
     PerformingInitialSync #
     newEvents (logLine PerformingInitialSync st) (afterDownloads cfg env st) @
     newEvents (afterDownloads cfg env st) (final (afterUploads cfg env st)) @
     (case afterUploads cfg env st of
        Inl t \<Rightarrow> []
      | Inr st3 \<Rightarrow>
          newEvents st3 (performInitialSync_deletesS3 cfg env (map fst (s3State st3)) st3) @
          newEvents (performInitialSync_deletesS3 cfg env (map fst (s3State st3)) st3)
            (afterDeletes cfg env st3) @
          [InitialSyncCompleted])"
proof -
  let ?st1 = "logLine PerformingInitialSync st"
  let ?st2 = "afterDownloads cfg env st"
  let ?r3 = "afterUploads cfg env st"
  have g12: "grows ?st1 ?st2" by (simp add: afterDownloads_def)
  have e2: "newEvents st ?st2 = PerformingInitialSync # newEvents ?st1 ?st2"
    using newEvents_trans [OF grows_logLine g12] by simp
  have e3: "newEvents st (final ?r3) = newEvents st ?st2 @ newEvents ?st2 (final ?r3)"
    by (rule newEvents_trans [OF afterDownloads_grows afterUploads_frame(4)])
  show ?thesis
  proof (cases ?r3)
    case (Inl t)
    then have "final (performInitialSync cfg env st) = final ?r3"
      by (cases t) (simp add: performInitialSync_final)
    then show ?thesis
      using e2 e3 Inl by simp
  next
    case (Inr st3)
    let ?st4 = "performInitialSync_deletesS3 cfg env (map fst (s3State st3)) st3"
    let ?st5 = "afterDeletes cfg env st3"
    have fin: "final (performInitialSync cfg env st) = logLine InitialSyncCompleted ?st5"
      using Inr by (simp add: performInitialSync_final)
    have g3: "grows st st3"
      using afterUploads_grows [where st = st and cfg = cfg and env = env] Inr by simp
    have g34: "grows st3 ?st4" by simp
    have g45: "grows ?st4 ?st5" by (simp add: afterDeletes_def Let_def)
    have g5: "grows st ?st5"
      by (rule grows_trans [OF g3 grows_trans [OF g34 g45]])
    have "newEvents st (logLine InitialSyncCompleted ?st5) =
        newEvents st ?st5 @ [InitialSyncCompleted]"
      using newEvents_trans [OF g5 grows_logLine] by simp
    moreover have "newEvents st ?st5 = newEvents st st3 @ newEvents st3 ?st5"
      by (rule newEvents_trans [OF g3 grows_trans [OF g34 g45]])
    moreover have "newEvents st3 ?st5 = newEvents st3 ?st4 @ newEvents ?st4 ?st5"
      by (rule newEvents_trans [OF g34 g45])
    moreover have "newEvents st st3 = newEvents st ?st2 @ newEvents ?st2 st3"
      using e3 Inr by simp
    ultimately show ?thesis
      unfolding fin using e2 Inr by simp
  qed
qed

lemma afterDeletes_lines:
  "linesOf DeleteFromS3 (fst ` set (s3State st3)) st3
     (performInitialSync_deletesS3 cfg env (map fst (s3State st3)) st3)"
  "linesOf DeleteLocal
     (fst ` set (localState st3) \<union> path_join (localFolderPath cfg) ` fst ` set (localState st3))
     (performInitialSync_deletesS3 cfg env (map fst (s3State st3)) st3)
     (afterDeletes cfg env st3)"
  using deletesLocal_lines [where st = "performInitialSync_deletesS3 cfg env (map fst (s3State st3)) st3"
      and ks = "map fst (localState st3)" and cfg = cfg and env = env]
    deletesS3_lines [where st = st3 and ks = "map fst (s3State st3)" and cfg = cfg and env = env]
  by (simp_all add: afterDeletes_def Let_def)


subsection \<open>Keys that are normalised relative paths\<close>

lemma canonicalKeys_iff:
  "canonicalKeys cfg env st \<longleftrightarrow>
     (\<forall>k \<in> fst ` set (localState st). canonical cfg env k) \<and>
     (\<forall>k \<in> fst ` set (s3State st). canonical cfg env k)"
  by (simp add: canonicalKeys_def list_all_iff)

lemma join_inject:
  assumes "canonical cfg env k" "canonical cfg env k'"
    and "path_join (localFolderPath cfg) k = path_join (localFolderPath cfg) k'"
  shows "k = k'"
  using assms fileOf_inject [of cfg env k k'] by (simp add: fileOf_def)

lemma downloads_keys:
  "fst ` set (localState (performInitialSync_downloads cfg env es st))
     \<subseteq> fst ` set (localState st) \<union> fst ` set es"
proof (rule downloads_rule)
  show "fst ` set (localState st) \<subseteq> fst ` set (localState st) \<union> fst ` set es" by simp
next
  fix k f and s :: Sys
  assume kf: "(k, f) \<in> set es"
    and s: "fst ` set (localState s) \<subseteq> fst ` set (localState st) \<union> fst ` set es"
  have "k \<in> fst ` set es" using kf by force
  then show "fst ` set (localState (downloadStep cfg env k f s))
      \<subseteq> fst ` set (localState st) \<union> fst ` set es"
    using downloadStep_keys(1) [of cfg env k f s] s by blast
qed

lemma afterDownloads_canonical:
  assumes "canonicalKeys cfg env st"
  shows "\<forall>k \<in> fst ` set (localState (afterDownloads cfg env st)). canonical cfg env k"
proof
  fix k
  assume "k \<in> fst ` set (localState (afterDownloads cfg env st))"
  then have "k \<in> fst ` set (localState st) \<union> fst ` set (s3State st)"
    using downloads_keys [of cfg env "s3State st" "logLine PerformingInitialSync st"]
    by (auto simp: afterDownloads_def)
  then show "canonical cfg env k"
    using assms by (auto simp: canonicalKeys_iff)
qed

subsection \<open>A path with equal fingerprints\<close>

lemma downloadStep_idle:
  "Map_get (localState st) k = Some f \<Longrightarrow> md5 f = md5 s3File \<Longrightarrow>
   downloadStep cfg env k s3File st = st"
  by (simp add: downloadStep_def)

lemma uploadStep_idle:
  "Map_get (s3State st) k = Some g \<Longrightarrow> md5 f = md5 g \<Longrightarrow>
   uploadStep cfg env k f st = Inr st"
  by (simp add: uploadStep_def)

lemma downloads_distinct:
  "distinct (map fst (localState st)) \<Longrightarrow>
   distinct (map fst (localState (performInitialSync_downloads cfg env es st)))"
  by (rule downloads_rule) (simp_all add: downloadStep_distinct)

lemma uploads_distinct:
  "distinct (map fst (s3State st)) \<Longrightarrow>
   distinct (map fst (s3State (final (performInitialSync_uploads cfg env es st))))"
  by (rule uploads_rule) (simp_all add: uploadStep_distinct)

lemma downloads_equal_untouched:
  assumes es: "\<forall>(k, s3File) \<in> set es. k = p \<longrightarrow> md5 s3File = md5 f"
    and f: "Map_get (localState st) p = Some f"
  shows "Map_get (localState (performInitialSync_downloads cfg env es st)) p = Some f \<and>
         linesOf Download (fst ` set es - {p}) st (performInitialSync_downloads cfg env es st)"
proof (rule downloads_rule)
  show "Map_get (localState st) p = Some f \<and>
        linesOf Download (fst ` set es - {p}) st st"
    using f by simp
next
  fix k s3File and s :: Sys
  assume kf: "(k, s3File) \<in> set es"
    and s: "Map_get (localState s) p = Some f \<and>
            linesOf Download (fst ` set es - {p}) st s"
  let ?s' = "downloadStep cfg env k s3File s"
  show "Map_get (localState ?s') p = Some f \<and>
        linesOf Download (fst ` set es - {p}) st ?s'"
  proof (cases "k = p")
    case True
    then have "md5 f = md5 s3File" using es kf by auto
    then have "?s' = s" using s True by (simp add: downloadStep_idle)
    then show ?thesis using s by simp
  next
    case False
    have "{k} \<subseteq> fst ` set es - {p}" using kf False by force
    then have "linesOf Download (fst ` set es - {p}) s ?s'"
      by (rule linesOf_mono [OF downloadStep_lines])
    then have "linesOf Download (fst ` set es - {p}) st ?s'"
      using s linesOf_trans by blast
    then show ?thesis
      using s False by (simp add: downloadStep_other)
  qed
qed

lemma uploads_equal_untouched:
  assumes es: "\<forall>(k, localFile) \<in> set es. k = p \<longrightarrow> md5 localFile = md5 g"
    and g: "Map_get (s3State st) p = Some g"
    and can: "\<forall>k \<in> fst ` set es. canonical cfg env k"
  shows "Map_get (s3State (final (performInitialSync_uploads cfg env es st))) p = Some g \<and>
         bucket (final (performInitialSync_uploads cfg env es st)) p = bucket st p \<and>
         linesOf Upload (fst ` set es - {p}) st
           (final (performInitialSync_uploads cfg env es st))"
proof (rule uploads_rule)
  show "Map_get (s3State st) p = Some g \<and> bucket st p = bucket st p \<and>
        linesOf Upload (fst ` set es - {p}) st st"
    using g by simp
next
  fix k localFile and s :: Sys
  assume kf: "(k, localFile) \<in> set es"
    and s: "Map_get (s3State s) p = Some g \<and> bucket s p = bucket st p \<and>
            linesOf Upload (fst ` set es - {p}) st s"
  let ?s' = "final (uploadStep cfg env k localFile s)"
  have c: "canonical cfg env k" using can kf by force
  show "Map_get (s3State ?s') p = Some g \<and> bucket ?s' p = bucket st p \<and>
        linesOf Upload (fst ` set es - {p}) st ?s'"
  proof (cases "k = p")
    case True
    then have "md5 localFile = md5 g" using es kf by auto
    then have "?s' = s" using s True by (simp add: uploadStep_idle)
    then show ?thesis using s by simp
  next
    case False
    have "{k} \<subseteq> fst ` set es - {p}" using kf False by force
    then have "linesOf Upload (fst ` set es - {p}) s ?s'"
      by (rule linesOf_mono [OF uploadStep_lines [OF c]])
    then have "linesOf Upload (fst ` set es - {p}) st ?s'"
      using s linesOf_trans by blast
    then show ?thesis
      using s False c by (simp add: uploadStep_other)
  qed
qed

lemma uploads_equal_not_thrown:
  assumes es: "\<forall>(k, localFile) \<in> set es. k = p \<longrightarrow> md5 localFile = md5 g"
    and g: "Map_get (s3State st) p = Some g"
    and can: "\<forall>k \<in> fst ` set es. canonical cfg env k"
    and p: "canonical cfg env p"
  shows "thrown (performInitialSync_uploads cfg env es st) \<noteq>
         Some (ReadFileSyncFailed (path_join (localFolderPath cfg) p))"
  using es g can
proof (induction es arbitrary: st)
  case Nil
  then show ?case by simp
next
  case (Cons e es)
  obtain k localFile where e: "e = (k, localFile)" by (cases e)
  have es': "\<forall>(k, localFile) \<in> set es. k = p \<longrightarrow> md5 localFile = md5 g"
    using Cons.prems(1) by simp
  have can': "\<forall>k \<in> fst ` set es. canonical cfg env k"
    using Cons.prems(3) by simp
  have c: "canonical cfg env k"
    using Cons.prems(3) e by simp
  show ?case
  proof (cases "uploadStep cfg env k localFile st")
    case (Inl t)
    have "k \<noteq> p"
    proof
      assume "k = p"
      then have "md5 localFile = md5 g" using Cons.prems(1) e by simp
      then have "uploadStep cfg env k localFile st = Inr st"
        using Cons.prems(2) \<open>k = p\<close> by (simp add: uploadStep_idle)
      then show False using Inl by simp
    qed
    then have "path_join (localFolderPath cfg) k \<noteq> path_join (localFolderPath cfg) p"
      using join_inject [OF c p] by blast
    then show ?thesis
      using uploadStep_Inl [OF Inl] Inl
      by (simp add: e uploads_Cons del: performInitialSync_uploads.simps(2))
  next
    case (Inr st1)
    have "Map_get (s3State st1) p = Some g"
    proof (cases "k = p")
      case True
      then have "md5 localFile = md5 g" using Cons.prems(1) e by simp
      then have "uploadStep cfg env k localFile st = Inr st"
        using Cons.prems(2) True by (simp add: uploadStep_idle)
      then show ?thesis using Inr Cons.prems(2) by simp
    next
      case False
      then show ?thesis
        using uploadStep_other(1) [OF c, of p localFile st] Inr Cons.prems(2) by simp
    qed
    then show ?thesis
      using Cons.IH [OF es' _ can'] Inr
      by (simp add: e uploads_Cons del: performInitialSync_uploads.simps(2))
  qed
qed

lemma entries_agree:
  assumes "distinct (map fst m)" "Map_get m p = Some v"
  shows "\<forall>(k, w) \<in> set m. k = p \<longrightarrow> w = v"
  using assms Map_get_entry by fastforce

lemma initial_equal_untouched:
  assumes wf: "wellFormed st"
    and can: "canonicalKeys cfg env st"
    and f: "Map_get (localState st) p = Some f"
    and g: "Map_get (s3State st) p = Some g"
    and eq: "md5 f = md5 g"
  shows "\<not> downloadScheduled p (newEvents st (final (performInitialSync cfg env st)))"
    and "\<not> uploadScheduled cfg p (newEvents st (final (performInitialSync cfg env st)))
           (thrown (performInitialSync cfg env st))"
proof -
  let ?st1 = "logLine PerformingInitialSync st"
  let ?st2 = "afterDownloads cfg env st"
  let ?r3 = "afterUploads cfg env st"
  have can2: "\<forall>k \<in> fst ` set (localState ?st2). canonical cfg env k"
    by (rule afterDownloads_canonical [OF can])
  have cp: "canonical cfg env p"
    using can Map_get_in [OF f] by (force simp: canonicalKeys_iff)
  have es1: "\<forall>(k, s3File) \<in> set (s3State st). k = p \<longrightarrow> md5 s3File = md5 f"
    using entries_agree [OF _ g] wf eq by (fastforce simp: wellFormed_def)
  have d: "Map_get (localState ?st2) p = Some f \<and>
      linesOf Download (fst ` set (s3State st) - {p}) ?st1 ?st2"
    unfolding afterDownloads_def
    by (rule downloads_equal_untouched [OF es1]) (simp add: f)
  have "distinct (map fst (localState ?st2))"
    unfolding afterDownloads_def using wf
    by (intro downloads_distinct) (simp add: wellFormed_def)
  then have es2: "\<forall>(k, localFile) \<in> set (localState ?st2). k = p \<longrightarrow> md5 localFile = md5 g"
    using entries_agree [of "localState ?st2" p f] d eq by fastforce
  have g2: "Map_get (s3State ?st2) p = Some g"
    using g by simp
  have u: "Map_get (s3State (final ?r3)) p = Some g \<and> bucket (final ?r3) p = bucket ?st2 p \<and>
      linesOf Upload (fst ` set (localState ?st2) - {p}) ?st2 (final ?r3)"
    unfolding afterUploads_def by (rule uploads_equal_untouched [OF es2 g2 can2])
  have t: "thrown (performInitialSync cfg env st) \<noteq>
      Some (ReadFileSyncFailed (path_join (localFolderPath cfg) p))"
    unfolding performInitialSync_thrown afterUploads_def
    by (rule uploads_equal_not_thrown [OF es2 g2 can2 cp])
  have nd1: "\<not> downloadScheduled p (newEvents ?st1 ?st2)"
    and nu1: "\<not> uploadLine p (newEvents ?st1 ?st2)"
    using d linesOf_not_download linesOf_not_upload by (blast, blast)
  have nd2: "\<not> downloadScheduled p (newEvents ?st2 (final ?r3))"
    and nu2: "\<not> uploadLine p (newEvents ?st2 (final ?r3))"
    using u linesOf_not_download linesOf_not_upload by (blast, blast)
  have rest: "\<not> downloadScheduled p
        (newEvents st3 (performInitialSync_deletesS3 cfg env (map fst (s3State st3)) st3)) \<and>
      \<not> uploadLine p
        (newEvents st3 (performInitialSync_deletesS3 cfg env (map fst (s3State st3)) st3)) \<and>
      \<not> downloadScheduled p
        (newEvents (performInitialSync_deletesS3 cfg env (map fst (s3State st3)) st3)
           (afterDeletes cfg env st3)) \<and>
      \<not> uploadLine p
        (newEvents (performInitialSync_deletesS3 cfg env (map fst (s3State st3)) st3)
           (afterDeletes cfg env st3))" for st3
    using afterDeletes_lines [of st3 cfg env] linesOf_not_download linesOf_not_upload
    by (metis operation.distinct(3,5,7,9))
  show "\<not> downloadScheduled p (newEvents st (final (performInitialSync cfg env st)))"
    unfolding performInitialSync_events using nd1 nd2 rest
    by (simp split: sum.splits)
  have "\<not> uploadLine p (newEvents st (final (performInitialSync cfg env st)))"
    unfolding performInitialSync_events using nu1 nu2 rest
    by (simp split: sum.splits)
  then show "\<not> uploadScheduled cfg p (newEvents st (final (performInitialSync cfg env st)))
           (thrown (performInitialSync cfg env st))"
    using t by (simp add: uploadScheduled_iff)
qed


subsection \<open>The periodic pass\<close>

lemma list_Cons:
  "syncS3ToLocal_loop cfg env (object # rest) st = syncS3ToLocal_loop cfg env rest (listStep cfg env object st)"
  by (simp add: listStep_def Let_def)

lemma list_rule:
  assumes "P st"
    and "\<And>object s. object \<in> set contents \<Longrightarrow> P s \<Longrightarrow> P (listStep cfg env object s)"
  shows "P (syncS3ToLocal_loop cfg env contents st)"
  using assms
  by (induction contents arbitrary: st)
    (simp_all add: list_Cons del: syncS3ToLocal_loop.simps(2))

lemma listStep_frame [simp]:
  "s3State (listStep cfg env object st) = s3State st"
  "bucket (listStep cfg env object st) = bucket st"
  "now (listStep cfg env object st) = now st"
  "grows st (listStep cfg env object st)"
  by (simp_all add: listStep_def)

lemma listStep_lines: "linesOf Download {Key object} st (listStep cfg env object st)"
  unfolding linesOf_def
  using download_events(1) [where st = st and env = env and k = "Key object" and cfg = cfg]
  by (auto simp: listStep_def)

lemma listStep_other:
  "k' \<noteq> Key object \<Longrightarrow>
     Map_get (localState (listStep cfg env object st)) k' = Map_get (localState st) k'"
  "x \<noteq> fileOf cfg env (Key object) \<Longrightarrow> disk (listStep cfg env object st) x = disk st x"
  by (simp_all add: listStep_def download_local_other download_disk_other)

lemma listStep_distinct:
  "distinct (map fst (localState st)) \<Longrightarrow>
   distinct (map fst (localState (listStep cfg env object st)))"
  by (simp add: listStep_def download_distinct)

lemma listStep_idle:
  "Map_get (localState st) (Key object) = Some f \<Longrightarrow> \<not> lastModified f < LastModified object \<Longrightarrow>
   listStep cfg env object st = st"
  by (simp add: listStep_def)

lemma list_frame [simp]:
  "s3State (syncS3ToLocal_loop cfg env contents st) = s3State st"
  "bucket (syncS3ToLocal_loop cfg env contents st) = bucket st"
  "now (syncS3ToLocal_loop cfg env contents st) = now st"
  by (rule list_rule; simp)+

lemma list_grows [simp]: "grows st (syncS3ToLocal_loop cfg env contents st)"
  by (rule list_rule) (auto intro: grows_trans)

lemma list_distinct:
  "distinct (map fst (localState st)) \<Longrightarrow>
   distinct (map fst (localState (syncS3ToLocal_loop cfg env contents st)))"
  by (rule list_rule) (simp_all add: listStep_distinct)

lemma list_not_newer_untouched:
  assumes os: "\<forall>object \<in> set contents. Key object = p \<longrightarrow> \<not> lastModified f < LastModified object"
    and f: "Map_get (localState st) p = Some f"
  shows "Map_get (localState (syncS3ToLocal_loop cfg env contents st)) p = Some f \<and>
         linesOf Download (Key ` set contents - {p}) st (syncS3ToLocal_loop cfg env contents st)"
proof (rule list_rule)
  show "Map_get (localState st) p = Some f \<and>
        linesOf Download (Key ` set contents - {p}) st st"
    using f by simp
next
  fix object and s :: Sys
  assume ob: "object \<in> set contents"
    and s: "Map_get (localState s) p = Some f \<and>
            linesOf Download (Key ` set contents - {p}) st s"
  let ?s' = "listStep cfg env object s"
  show "Map_get (localState ?s') p = Some f \<and>
        linesOf Download (Key ` set contents - {p}) st ?s'"
  proof (cases "Key object = p")
    case True
    then have "\<not> lastModified f < LastModified object" using os ob by simp
    then have "?s' = s" using s True by (simp add: listStep_idle)
    then show ?thesis using s by simp
  next
    case False
    have "{Key object} \<subseteq> Key ` set contents - {p}" using ob False by simp
    then have "linesOf Download (Key ` set contents - {p}) s ?s'"
      by (rule linesOf_mono [OF listStep_lines])
    then have "linesOf Download (Key ` set contents - {p}) st ?s'"
      using s linesOf_trans by blast
    then show ?thesis
      using s False by (simp add: listStep_other)
  qed
qed

lemma syncS3ToLocal_frame [simp]:
  "s3State (syncS3ToLocal cfg env st) = s3State st"
  "bucket (syncS3ToLocal cfg env st) = bucket st"
  "now (syncS3ToLocal cfg env st) = now st"
  "grows st (syncS3ToLocal cfg env st)"
  by (simp_all add: syncS3ToLocal_def split: ListResponse.splits option.splits)

lemma syncS3ToLocal_distinct:
  "distinct (map fst (localState st)) \<Longrightarrow> distinct (map fst (localState (syncS3ToLocal cfg env st)))"
  by (simp add: syncS3ToLocal_def list_distinct split: ListResponse.splits option.splits)

lemma syncS3ToLocal_not_newer_untouched:
  assumes "\<not> listedNewer env p (lastModified f)"
    and f: "Map_get (localState st) p = Some f"
  shows "Map_get (localState (syncS3ToLocal cfg env st)) p = Some f \<and>
         \<not> downloadScheduled p (newEvents st (syncS3ToLocal cfg env st)) \<and>
         \<not> uploadLine p (newEvents st (syncS3ToLocal cfg env st))"
proof (cases "listObjects env")
  case ListRejected
  then show ?thesis using f by (simp add: syncS3ToLocal_def)
next
  case (ListResolved r)
  show ?thesis
  proof (cases r)
    case None
    then show ?thesis using f ListResolved by (simp add: syncS3ToLocal_def)
  next
    case (Some contents)
    have eq: "syncS3ToLocal cfg env st = syncS3ToLocal_loop cfg env contents st"
      using ListResolved Some by (simp add: syncS3ToLocal_def)
    have "\<forall>object \<in> set contents. Key object = p \<longrightarrow> \<not> lastModified f < LastModified object"
      using assms(1) ListResolved Some by (auto simp: listedNewer_def)
    from list_not_newer_untouched [OF this f, of cfg env]
    show ?thesis
      unfolding eq using linesOf_not_download linesOf_not_upload
      by (metis Diff_iff singletonI operation.distinct(1))
  qed
qed

lemma forReal_simps [simp]:
  "\<not> isDryRun (forReal cfg)"
  "localFolderPath (forReal cfg) = localFolderPath cfg"
  "canonical (forReal cfg) env k = canonical cfg env k"
  "fileOf (forReal cfg) env k = fileOf cfg env k"
  by (simp_all add: forReal_def canonical_def fileOf_def)

lemma uploadToS3_forReal [simp]:
  "uploadToS3 (forReal cfg) env filePath st = uploadToS3 cfg env filePath st"
  by (simp add: uploadToS3_def forReal_def Let_def split: option.splits)

lemma syncLocalToS3_uploads_eq:
  "syncLocalToS3_uploads cfg env es st = performInitialSync_uploads (forReal cfg) env es st"
  by (induction es arbitrary: st) (auto split: sum.splits)

lemma syncLocalToS3_deletes_eq:
  "syncLocalToS3_deletes env ks st = performInitialSync_deletesS3 (forReal cfg) env ks st"
  by (induction ks arbitrary: st) auto

lemma syncLocalToS3_final:
  "final (syncLocalToS3 cfg env st) =
     (case performInitialSync_uploads (forReal cfg) env (localState st) st of
        Inl t \<Rightarrow> snd t
      | Inr st1 \<Rightarrow> performInitialSync_deletesS3 (forReal cfg) env (map fst (s3State st1)) st1)"
  by (auto simp: syncLocalToS3_def syncLocalToS3_uploads_eq
      syncLocalToS3_deletes_eq [where cfg = cfg] split: sum.splits)

lemma syncLocalToS3_thrown:
  "thrown (syncLocalToS3 cfg env st) = thrown (performInitialSync_uploads (forReal cfg) env (localState st) st)"
  by (auto simp: syncLocalToS3_def syncLocalToS3_uploads_eq split: sum.splits)

lemma syncLocalToS3_events:
  "newEvents st (final (syncLocalToS3 cfg env st)) =
     newEvents st (final (performInitialSync_uploads (forReal cfg) env (localState st) st)) @
     (case performInitialSync_uploads (forReal cfg) env (localState st) st of
        Inl t \<Rightarrow> []
      | Inr st1 \<Rightarrow>
          newEvents st1 (performInitialSync_deletesS3 (forReal cfg) env (map fst (s3State st1)) st1))"
proof (cases "performInitialSync_uploads (forReal cfg) env (localState st) st")
  case (Inl t)
  then show ?thesis by (cases t) (simp add: syncLocalToS3_final)
next
  case (Inr st1)
  have "grows st st1"
    using uploads_grows [where st = st and cfg = "forReal cfg" and env = env and es = "localState st"] Inr
    by simp
  from newEvents_trans [OF this deletesS3_grows]
  show ?thesis using Inr by (simp add: syncLocalToS3_final)
qed

lemma syncLocalToS3_grows [simp]: "grows st (final (syncLocalToS3 cfg env st))"
proof (cases "performInitialSync_uploads (forReal cfg) env (localState st) st")
  case (Inl t)
  then show ?thesis
    using uploads_grows [where st = st and cfg = "forReal cfg" and env = env and es = "localState st"]
    by (cases t) (simp add: syncLocalToS3_final)
next
  case (Inr st1)
  have "grows st st1"
    using uploads_grows [where st = st and cfg = "forReal cfg" and env = env and es = "localState st"] Inr
    by simp
  from grows_trans [OF this deletesS3_grows]
  show ?thesis using Inr by (simp add: syncLocalToS3_final)
qed

lemma syncLocalToS3_equal_untouched:
  assumes wf: "distinct (map fst (localState st))"
    and can: "\<forall>k \<in> fst ` set (localState st). canonical cfg env k"
    and f: "Map_get (localState st) p = Some f"
    and g: "Map_get (s3State st) p = Some g"
    and eq: "md5 f = md5 g"
  shows "\<not> downloadScheduled p (newEvents st (final (syncLocalToS3 cfg env st)))"
    and "\<not> uploadLine p (newEvents st (final (syncLocalToS3 cfg env st)))"
    and "thrown (syncLocalToS3 cfg env st) \<noteq>
         Some (ReadFileSyncFailed (path_join (localFolderPath cfg) p))"
proof -
  let ?r = "performInitialSync_uploads (forReal cfg) env (localState st) st"
  have can': "\<forall>k \<in> fst ` set (localState st). canonical (forReal cfg) env k"
    using can by simp
  have cp: "canonical (forReal cfg) env p"
    using can' Map_get_in [OF f] by force
  have es: "\<forall>(k, localFile) \<in> set (localState st). k = p \<longrightarrow> md5 localFile = md5 g"
    using entries_agree [OF wf f] eq by fastforce
  have u: "linesOf Upload (fst ` set (localState st) - {p}) st (final ?r)"
    using uploads_equal_untouched [OF es g can'] by blast
  have nd: "\<not> downloadScheduled p (newEvents st (final ?r))"
    and nu: "\<not> uploadLine p (newEvents st (final ?r))"
    using u linesOf_not_download linesOf_not_upload by (blast, blast)
  have rest: "\<not> downloadScheduled p
        (newEvents st1 (performInitialSync_deletesS3 (forReal cfg) env (map fst (s3State st1)) st1)) \<and>
      \<not> uploadLine p
        (newEvents st1 (performInitialSync_deletesS3 (forReal cfg) env (map fst (s3State st1)) st1))"
    for st1
    using afterDeletes_lines(1) [of st1 "forReal cfg" env] linesOf_not_download linesOf_not_upload
    by (metis operation.distinct(3,7))
  show "\<not> downloadScheduled p (newEvents st (final (syncLocalToS3 cfg env st)))"
    unfolding syncLocalToS3_events using nd rest by (simp split: sum.splits)
  show "\<not> uploadLine p (newEvents st (final (syncLocalToS3 cfg env st)))"
    unfolding syncLocalToS3_events using nu rest by (simp split: sum.splits)
  show "thrown (syncLocalToS3 cfg env st) \<noteq>
      Some (ReadFileSyncFailed (path_join (localFolderPath cfg) p))"
    unfolding syncLocalToS3_thrown
    using uploads_equal_not_thrown [OF es g can' cp] by simp
qed

lemma list_keys:
  "fst ` set (localState (syncS3ToLocal_loop cfg env contents st))
     \<subseteq> fst ` set (localState st) \<union> Key ` set contents"
proof (rule list_rule)
  show "fst ` set (localState st) \<subseteq> fst ` set (localState st) \<union> Key ` set contents"
    by simp
next
  fix object and s :: Sys
  assume ob: "object \<in> set contents"
    and s: "fst ` set (localState s) \<subseteq> fst ` set (localState st) \<union> Key ` set contents"
  have "fst ` set (localState (listStep cfg env object s))
      \<subseteq> insert (Key object) (fst ` set (localState s))"
    using download_keys(1) [of cfg env "Key object" s] by (auto simp: listStep_def)
  then show "fst ` set (localState (listStep cfg env object s))
      \<subseteq> fst ` set (localState st) \<union> Key ` set contents"
    using s ob by blast
qed

lemma syncS3ToLocal_keys:
  "fst ` set (localState (syncS3ToLocal cfg env st))
     \<subseteq> fst ` set (localState st) \<union> set (listedKeys env)"
  using list_keys [where cfg = cfg and env = env and st = st]
  by (auto simp: syncS3ToLocal_def listedKeys_def split: ListResponse.splits option.splits)

lemma periodic_equal_untouched:
  assumes wf: "wellFormed st"
    and can: "canonicalKeys cfg env st"
    and listed: "list_all (canonical cfg env) (listedKeys env)"
    and f: "Map_get (localState st) p = Some f"
    and g: "Map_get (s3State st) p = Some g"
    and eq: "md5 f = md5 g"
    and old: "\<not> listedNewer env p (lastModified f)"
  shows "\<not> downloadScheduled p (newEvents st (final (periodicSync cfg env st)))"
    and "\<not> uploadScheduled cfg p (newEvents st (final (periodicSync cfg env st)))
           (thrown (periodicSync cfg env st))"
proof -
  let ?s = "syncS3ToLocal cfg env st"
  have a: "Map_get (localState ?s) p = Some f \<and>
      \<not> downloadScheduled p (newEvents st ?s) \<and> \<not> uploadLine p (newEvents st ?s)"
    by (rule syncS3ToLocal_not_newer_untouched [OF old f])
  have d: "distinct (map fst (localState ?s))"
    using wf by (intro syncS3ToLocal_distinct) (simp add: wellFormed_def)
  have c: "\<forall>k \<in> fst ` set (localState ?s). canonical cfg env k"
  proof
    fix k
    assume "k \<in> fst ` set (localState ?s)"
    then have "k \<in> fst ` set (localState st) \<union> set (listedKeys env)"
      using syncS3ToLocal_keys [of cfg env st] by blast
    then show "canonical cfg env k"
      using can listed unfolding canonicalKeys_iff list_all_iff by blast
  qed
  have g': "Map_get (s3State ?s) p = Some g" using g by simp
  have ev: "newEvents st (final (periodicSync cfg env st)) =
      newEvents st ?s @ newEvents ?s (final (syncLocalToS3 cfg env ?s))"
    unfolding periodicSync_def
    by (rule newEvents_trans [OF syncS3ToLocal_frame(4) syncLocalToS3_grows])
  show "\<not> downloadScheduled p (newEvents st (final (periodicSync cfg env st)))"
    unfolding ev using a syncLocalToS3_equal_untouched(1) [OF d c _ g' eq] by simp
  have "\<not> uploadLine p (newEvents st (final (periodicSync cfg env st)))"
    unfolding ev using a syncLocalToS3_equal_untouched(2) [OF d c _ g' eq] by simp
  moreover have "thrown (periodicSync cfg env st) \<noteq>
      Some (ReadFileSyncFailed (path_join (localFolderPath cfg) p))"
    unfolding periodicSync_def using a syncLocalToS3_equal_untouched(3) [OF d c _ g' eq] by simp
  ultimately show "\<not> uploadScheduled cfg p (newEvents st (final (periodicSync cfg env st)))
           (thrown (periodicSync cfg env st))"
    by (simp add: uploadScheduled_iff)
qed

lemma downloadAttempted_simps [simp]:
  "\<not> downloadAttempted k []"
  "downloadAttempted k (l @ l') = (downloadAttempted k l \<or> downloadAttempted k l')"
  by (auto simp: downloadAttempted_def)

lemma listStep_attempted:
  assumes "case Map_get (localState st) (Key object) of None \<Rightarrow> True
           | Some f \<Rightarrow> lastModified f < LastModified object"
  shows "downloadAttempted (Key object) (newEvents st (listStep cfg env object st))"
  using assms download_events(2) [where k = "Key object" and st = st and env = env and cfg = cfg]
  by (simp add: listStep_def)

lemma list_attempted:
  assumes "object \<in> set contents"
    and "case Map_get (localState st) (Key object) of None \<Rightarrow> True
         | Some f \<Rightarrow> lastModified f < LastModified object"
  shows "downloadAttempted (Key object) (newEvents st (syncS3ToLocal_loop cfg env contents st))"
  using assms
proof (induction contents arbitrary: st)
  case Nil
  then show ?case by simp
next
  case (Cons h rest)
  let ?s1 = "listStep cfg env h st"
  let ?s' = "syncS3ToLocal_loop cfg env rest ?s1"
  have ev: "newEvents st ?s' = newEvents st ?s1 @ newEvents ?s1 ?s'"
    by (rule newEvents_trans) simp_all
  have eq: "syncS3ToLocal_loop cfg env (h # rest) st = ?s'"
    by (rule list_Cons)
  show ?case
  proof (cases "downloadAttempted (Key object) (newEvents st ?s1)")
    case True
    then show ?thesis unfolding eq ev by simp
  next
    case False
    have ne: "h \<noteq> object"
      using False listStep_attempted [OF Cons.prems(2), where env = env] by auto
    then have mem: "object \<in> set rest" using Cons.prems(1) by simp
    have "Map_get (localState ?s1) (Key object) = Map_get (localState st) (Key object)"
    proof (cases "Key h = Key object")
      case True
      have "\<not> (case Map_get (localState st) (Key h) of None \<Rightarrow> True
           | Some f \<Rightarrow> lastModified f < LastModified h)"
        using False listStep_attempted [where st = st and object = h and env = env] True by auto
      then have "?s1 = st" by (simp add: listStep_def)
      then show ?thesis by simp
    next
      case False
      then show ?thesis by (simp add: listStep_other)
    qed
    then have "case Map_get (localState ?s1) (Key object) of None \<Rightarrow> True
         | Some f \<Rightarrow> lastModified f < LastModified object"
      using Cons.prems(2) by simp
    from Cons.IH [OF mem this]
    show ?thesis unfolding eq ev by simp
  qed
qed

lemma periodic_newer_downloads:
  assumes f: "Map_get (localState st) p = Some f"
    and new: "listedNewer env p (lastModified f)"
  shows "downloadAttempted p (newEvents st (final (periodicSync cfg env st)))"
proof -
  obtain contents object where ls: "listObjects env = ListResolved (Some contents)"
    and ob: "object \<in> set contents" "Key object = p" "lastModified f < LastModified object"
    using new by (auto simp: listedNewer_def split: ListResponse.splits option.splits)
  have "downloadAttempted (Key object) (newEvents st (syncS3ToLocal_loop cfg env contents st))"
    by (rule list_attempted [OF ob(1)]) (simp add: ob f)
  then have "downloadAttempted p (newEvents st (syncS3ToLocal cfg env st))"
    using ls ob(2) by (simp add: syncS3ToLocal_def)
  moreover have "newEvents st (final (periodicSync cfg env st)) =
      newEvents st (syncS3ToLocal cfg env st) @
      newEvents (syncS3ToLocal cfg env st) (final (syncLocalToS3 cfg env (syncS3ToLocal cfg env st)))"
    unfolding periodicSync_def
    by (rule newEvents_trans [OF syncS3ToLocal_frame(4) syncLocalToS3_grows])
  ultimately show ?thesis by simp
qed

subsection \<open>A path with differing fingerprints\<close>

lemma downloads_append:
  "performInitialSync_downloads cfg env (xs @ ys) st =
     performInitialSync_downloads cfg env ys (performInitialSync_downloads cfg env xs st)"
  by (induction xs arbitrary: st) auto

lemma downloads_other:
  assumes "p \<notin> fst ` set es"
  shows "Map_get (localState (performInitialSync_downloads cfg env es st)) p =
           Map_get (localState st) p"
proof (rule downloads_rule)
  show "Map_get (localState st) p = Map_get (localState st) p"
    by simp
next
  fix k f and s :: Sys
  assume kf: "(k, f) \<in> set es"
    and s: "Map_get (localState s) p = Map_get (localState st) p"
  have "p \<noteq> k" using assms kf by force
  then show "Map_get (localState (downloadStep cfg env k f s)) p = Map_get (localState st) p"
    using s by (simp add: downloadStep_other)
qed

lemma downloads_disk_other:
  assumes "p \<notin> fst ` set es"
    and can: "\<forall>k \<in> fst ` set es. canonical cfg env k"
    and cp: "canonical cfg env p"
  shows "disk (performInitialSync_downloads cfg env es st) (fileOf cfg env p) =
           disk st (fileOf cfg env p)"
proof (rule downloads_rule)
  show "disk st (fileOf cfg env p) = disk st (fileOf cfg env p)"
    by simp
next
  fix k f and s :: Sys
  assume kf: "(k, f) \<in> set es"
    and s: "disk s (fileOf cfg env p) = disk st (fileOf cfg env p)"
  have "p \<noteq> k" using assms(1) kf by force
  moreover have "canonical cfg env k" using can kf by force
  ultimately have "fileOf cfg env p \<noteq> fileOf cfg env k"
    using fileOf_neq [OF _ cp] by blast
  then show "disk (downloadStep cfg env k f s) (fileOf cfg env p) = disk st (fileOf cfg env p)"
    using s by (simp add: downloadStep_other)
qed

lemma linesOf_no_key:
  assumes "linesOf op K a b" "p \<notin> K" "nameOf e = Some p"
  shows "e \<notin> set (newEvents a b)"
proof
  assume "e \<in> set (newEvents a b)"
  then obtain k where "k \<in> K" "nameOf e = Some k"
    using assms(1) unfolding linesOf_def by blast
  then show False using assms(2,3) by simp
qed

lemma downloads_differing:
  assumes dist: "distinct (map fst es)"
    and mem: "(p, g) \<in> set es"
    and f: "Map_get (localState st) p = Some f"
    and ne: "md5 f \<noteq> md5 g"
  shows "if isDryRun cfg
         then WouldDownload p \<in> set (newEvents st (performInitialSync_downloads cfg env es st))
         else downloadAttempted p (newEvents st (performInitialSync_downloads cfg env es st)) \<and>
              (ErrorDownloading p \<notin> set (newEvents st (performInitialSync_downloads cfg env es st))
               \<longrightarrow> (\<exists>c. bucket st p = Some c \<and>
                      Map_get (localState (performInitialSync_downloads cfg env es st)) p =
                        Some \<lparr>path = p, md5 = digest env c, lastModified = now st\<rparr> \<and>
                      ((\<forall>k \<in> fst ` set es. canonical cfg env k) \<longrightarrow>
                       disk (performInitialSync_downloads cfg env es st) (fileOf cfg env p) =
                         Some c)))"
proof -
  obtain pre post where es: "es = pre @ (p, g) # post"
    using mem by (meson split_list)
  have pre: "p \<notin> fst ` set pre" and post: "p \<notin> fst ` set post"
    using dist unfolding es by auto
  let ?s1 = "performInitialSync_downloads cfg env pre st"
  let ?s2 = "downloadStep cfg env p g ?s1"
  let ?s3 = "performInitialSync_downloads cfg env post ?s2"
  have run: "performInitialSync_downloads cfg env es st = ?s3"
    unfolding es by (simp only: downloads_append downloads_Cons)
  have ev: "newEvents st ?s3 = newEvents st ?s1 @ newEvents ?s1 ?s2 @ newEvents ?s2 ?s3"
    using newEvents_trans [of st ?s1 ?s3] newEvents_trans [of ?s1 ?s2 ?s3]
      grows_trans [of ?s1 ?s2 ?s3]
    by simp
  have f1: "Map_get (localState ?s1) p = Some f"
    using downloads_other [OF pre] f by simp
  have o3: "Map_get (localState ?s3) p = Map_get (localState ?s2) p"
    using downloads_other [OF post] by simp
  have d3: "disk ?s3 (fileOf cfg env p) = disk ?s2 (fileOf cfg env p)"
    if "\<forall>k \<in> fst ` set es. canonical cfg env k"
  proof -
    have "canonical cfg env p" using that mem by force
    moreover have "\<forall>k \<in> fst ` set post. canonical cfg env k"
      using that unfolding es by simp
    ultimately show ?thesis
      using downloads_disk_other [OF post] by blast
  qed
  have no1: "ErrorDownloading p \<notin> set (newEvents st ?s1)"
    by (rule linesOf_no_key [OF downloads_lines pre]) simp
  have no3: "ErrorDownloading p \<notin> set (newEvents ?s2 ?s3)"
    by (rule linesOf_no_key [OF downloads_lines post]) simp
  show ?thesis
  proof (cases "isDryRun cfg")
    case True
    then have "?s2 = logLine (WouldDownload p) ?s1"
      using f1 ne by (simp add: downloadStep_def)
    then have "newEvents ?s1 ?s2 = [WouldDownload p]" by simp
    then show ?thesis using True unfolding run ev by simp
  next
    case False
    then have s2: "?s2 = downloadFromS3 cfg env p ?s1"
      using f1 ne by (simp add: downloadStep_def)
    have att: "downloadAttempted p (newEvents ?s1 ?s2)"
      unfolding s2 by (rule download_events(2))
    have "\<exists>c. bucket st p = Some c \<and>
        Map_get (localState ?s3) p = Some \<lparr>path = p, md5 = digest env c, lastModified = now st\<rparr> \<and>
        ((\<forall>k \<in> fst ` set es. canonical cfg env k) \<longrightarrow>
           disk ?s3 (fileOf cfg env p) = Some c)"
      if "ErrorDownloading p \<notin> set (newEvents st ?s3)"
    proof -
      have "ErrorDownloading p \<notin> set (newEvents ?s1 (downloadFromS3 cfg env p ?s1))"
        using that unfolding ev by (simp add: s2)
      then obtain c where c: "bucket ?s1 p = Some c"
        and d: "downloadFromS3 cfg env p ?s1 =
          ?s1\<lparr>disk := (disk ?s1)(fileOf cfg env p \<mapsto> c),
             console := console ?s1 @ [Downloaded p],
             localState := Map_set (localState ?s1) p
               \<lparr>path = p, md5 = digest env c, lastModified = now ?s1\<rparr>\<rparr>"
        using download_cases [where st = "?s1" and k = p and env = env and cfg = cfg] by blast
      have "Map_get (localState ?s2) p =
          Some \<lparr>path = p, md5 = digest env c, lastModified = now st\<rparr>"
        "disk ?s2 (fileOf cfg env p) = Some c"
        unfolding s2 d by simp_all
      then show ?thesis using c o3 d3 by simp
    qed
    then show ?thesis using False att unfolding run ev by simp
  qed
qed

lemma uploads_append:
  "performInitialSync_uploads cfg env (xs @ ys) st =
     (case performInitialSync_uploads cfg env xs st of
        Inl t \<Rightarrow> Inl t
      | Inr s \<Rightarrow> performInitialSync_uploads cfg env ys s)"
  by (induction xs arbitrary: st) (auto split: sum.splits)

lemma uploads_other:
  assumes "p \<notin> fst ` set es"
    and can: "\<forall>k \<in> fst ` set es. canonical cfg env k"
  shows "Map_get (s3State (final (performInitialSync_uploads cfg env es st))) p =
           Map_get (s3State st) p \<and>
         bucket (final (performInitialSync_uploads cfg env es st)) p = bucket st p"
proof (rule uploads_rule)
  show "Map_get (s3State st) p = Map_get (s3State st) p \<and> bucket st p = bucket st p"
    by simp
next
  fix k f and s :: Sys
  assume kf: "(k, f) \<in> set es"
    and s: "Map_get (s3State s) p = Map_get (s3State st) p \<and> bucket s p = bucket st p"
  have "p \<noteq> k" using assms(1) kf by force
  moreover have "canonical cfg env k" using can kf by force
  ultimately show "Map_get (s3State (final (uploadStep cfg env k f s))) p = Map_get (s3State st) p \<and>
        bucket (final (uploadStep cfg env k f s)) p = bucket st p"
    using s by (simp add: uploadStep_other)
qed

lemma uploads_differing:
  assumes dist: "distinct (map fst es)"
    and mem: "(p, f) \<in> set es"
    and can: "\<forall>k \<in> fst ` set es. canonical cfg env k"
    and g: "Map_get (s3State st) p = Some g"
    and ne: "md5 f \<noteq> md5 g"
    and completes: "thrown (performInitialSync_uploads cfg env es st) = None"
  shows "uploadLine p (newEvents st (final (performInitialSync_uploads cfg env es st)))"
proof -
  obtain pre post where es: "es = pre @ (p, f) # post"
    using mem by (meson split_list)
  have pre: "p \<notin> fst ` set pre"
    using dist unfolding es by auto
  have can_pre: "\<forall>k \<in> fst ` set pre. canonical cfg env k"
    using can unfolding es by simp
  have cp: "canonical cfg env p"
    using can mem by force
  obtain s1 where s1: "performInitialSync_uploads cfg env pre st = Inr s1"
    using completes unfolding es uploads_append
    by (cases "performInitialSync_uploads cfg env pre st") auto
  obtain s2 where s2: "uploadStep cfg env p f s1 = Inr s2"
    using completes s1 unfolding es uploads_append
    by (cases "uploadStep cfg env p f s1")
      (auto simp add: uploads_Cons simp del: performInitialSync_uploads.simps(2))
  let ?r3 = "performInitialSync_uploads cfg env post s2"
  have run: "performInitialSync_uploads cfg env es st = ?r3"
    unfolding es uploads_append using s1 s2
    by (simp add: uploads_Cons del: performInitialSync_uploads.simps(2))
  have g1: "grows st s1"
    using uploads_grows [where st = st and cfg = cfg and env = env and es = pre] s1 by simp
  have g2: "grows s1 s2"
    using uploadStep_frame(4) [where st = s1 and cfg = cfg and env = env and k = p and f = f] s2
    by simp
  have ev: "newEvents st (final ?r3) = newEvents st s1 @ newEvents s1 s2 @ newEvents s2 (final ?r3)"
    using newEvents_trans [OF g1 grows_trans [OF g2 uploads_grows]]
      newEvents_trans [OF g2 uploads_grows]
    by simp
  have "Map_get (s3State s1) p = Some g"
    using uploads_other [OF pre can_pre, of st] s1 g by simp
  then have step: "uploadStep cfg env p f s1 =
      (if isDryRun cfg then Inr (logLine (WouldUpload p) s1)
       else uploadToS3 cfg env (path_join (localFolderPath cfg) p) s1)"
    using ne by (simp add: uploadStep_def)
  have "uploadLine p (newEvents s1 s2)"
  proof (cases "isDryRun cfg")
    case True
    then have "s2 = logLine (WouldUpload p) s1" using step s2 by simp
    then show ?thesis by simp
  next
    case False
    then have "uploadToS3 cfg env (path_join (localFolderPath cfg) p) s1 = Inr s2"
      using step s2 by simp
    then show ?thesis
      using upload_events(2) [where st = s1 and env = env and cfg = cfg
          and filePath = "path_join (localFolderPath cfg) p"] cp
      by (auto simp add: uploadLine_def)
  qed
  then show ?thesis unfolding run ev by simp
qed

lemma deletesS3_has_untouched:
  assumes "Map_has (localState st) p"
  shows "Map_get (s3State (performInitialSync_deletesS3 cfg env ks st)) p = Map_get (s3State st) p \<and>
         bucket (performInitialSync_deletesS3 cfg env ks st) p = bucket st p"
proof -
  have "Map_get (s3State (performInitialSync_deletesS3 cfg env ks st)) p = Map_get (s3State st) p \<and>
        bucket (performInitialSync_deletesS3 cfg env ks st) p = bucket st p \<and>
        Map_has (localState (performInitialSync_deletesS3 cfg env ks st)) p"
  proof (rule deletesS3_rule)
    show "Map_get (s3State st) p = Map_get (s3State st) p \<and> bucket st p = bucket st p \<and>
        Map_has (localState st) p"
      using assms by simp
  next
    fix k and s :: Sys
    assume s: "Map_get (s3State s) p = Map_get (s3State st) p \<and> bucket s p = bucket st p \<and>
        Map_has (localState s) p"
    show "Map_get (s3State (deleteS3Step cfg env k s)) p = Map_get (s3State st) p \<and>
        bucket (deleteS3Step cfg env k s) p = bucket st p \<and>
        Map_has (localState (deleteS3Step cfg env k s)) p"
    proof (cases "k = p")
      case True
      then have "deleteS3Step cfg env k s = s" using s by (simp add: deleteS3Step_idle)
      then show ?thesis using s by simp
    next
      case False
      then show ?thesis using s by (simp add: deleteS3Step_other)
    qed
  qed
  then show ?thesis by simp
qed

lemma deletesLocal_has_untouched:
  assumes "Map_has (s3State st) p"
  shows "Map_get (localState (performInitialSync_deletesLocal cfg env ks st)) p =
           Map_get (localState st) p \<and>
         ((\<forall>k \<in> set ks. canonical cfg env k) \<and> canonical cfg env p \<longrightarrow>
          disk (performInitialSync_deletesLocal cfg env ks st) (fileOf cfg env p) =
            disk st (fileOf cfg env p))"
proof -
  have "Map_get (localState (performInitialSync_deletesLocal cfg env ks st)) p =
           Map_get (localState st) p \<and>
        ((\<forall>k \<in> set ks. canonical cfg env k) \<and> canonical cfg env p \<longrightarrow>
         disk (performInitialSync_deletesLocal cfg env ks st) (fileOf cfg env p) =
           disk st (fileOf cfg env p)) \<and>
        Map_has (s3State (performInitialSync_deletesLocal cfg env ks st)) p"
  proof (rule deletesLocal_rule)
    show "Map_get (localState st) p = Map_get (localState st) p \<and>
        ((\<forall>k \<in> set ks. canonical cfg env k) \<and> canonical cfg env p \<longrightarrow>
         disk st (fileOf cfg env p) = disk st (fileOf cfg env p)) \<and>
        Map_has (s3State st) p"
      using assms by simp
  next
    fix k and s :: Sys
    assume k: "k \<in> set ks"
      and s: "Map_get (localState s) p = Map_get (localState st) p \<and>
        ((\<forall>k \<in> set ks. canonical cfg env k) \<and> canonical cfg env p \<longrightarrow>
         disk s (fileOf cfg env p) = disk st (fileOf cfg env p)) \<and>
        Map_has (s3State s) p"
    show "Map_get (localState (deleteLocalStep cfg env k s)) p = Map_get (localState st) p \<and>
        ((\<forall>k \<in> set ks. canonical cfg env k) \<and> canonical cfg env p \<longrightarrow>
         disk (deleteLocalStep cfg env k s) (fileOf cfg env p) = disk st (fileOf cfg env p)) \<and>
        Map_has (s3State (deleteLocalStep cfg env k s)) p"
    proof (cases "k = p")
      case True
      then have "deleteLocalStep cfg env k s = s" using s by (simp add: deleteLocalStep_idle)
      then show ?thesis using s by simp
    next
      case False
      have "fileOf cfg env p \<noteq> fileOf cfg env k"
        if "\<forall>k \<in> set ks. canonical cfg env k" "canonical cfg env p"
        using fileOf_neq [of cfg env k p] that k False by blast
      then show ?thesis using s False by (simp add: deleteLocalStep_other)
    qed
  qed
  then show ?thesis by simp
qed

lemma afterDeletes_untouched:
  assumes "Map_has (localState st3) p" "Map_has (s3State st3) p"
  shows "Map_get (localState (afterDeletes cfg env st3)) p = Map_get (localState st3) p"
    and "Map_get (s3State (afterDeletes cfg env st3)) p = Map_get (s3State st3) p"
    and "\<forall>k \<in> fst ` set (localState st3). canonical cfg env k \<Longrightarrow>
         disk (afterDeletes cfg env st3) (fileOf cfg env p) = disk st3 (fileOf cfg env p)"
    and "bucket (afterDeletes cfg env st3) p = bucket st3 p"
proof -
  let ?st4 = "performInitialSync_deletesS3 cfg env (map fst (s3State st3)) st3"
  have 4: "Map_get (s3State ?st4) p = Map_get (s3State st3) p" "bucket ?st4 p = bucket st3 p"
    using deletesS3_has_untouched [OF assms(1)] by simp_all
  then have "Map_has (s3State ?st4) p"
    using assms(2) by (simp add: Map_has_get)
  note l = deletesLocal_has_untouched [OF this, of cfg env "map fst (localState ?st4)"]
  show "Map_get (localState (afterDeletes cfg env st3)) p = Map_get (localState st3) p"
    and "Map_get (s3State (afterDeletes cfg env st3)) p = Map_get (s3State st3) p"
    and "bucket (afterDeletes cfg env st3) p = bucket st3 p"
    using l 4 by (simp_all add: afterDeletes_def Let_def)
  show "disk (afterDeletes cfg env st3) (fileOf cfg env p) = disk st3 (fileOf cfg env p)"
    if can: "\<forall>k \<in> fst ` set (localState st3). canonical cfg env k"
  proof -
    have "canonical cfg env p"
      using can assms(1) by (auto simp: Map_has_def)
    then show ?thesis
      using l can by (simp add: afterDeletes_def Let_def)
  qed
qed

lemma uploads_phase_equal:
  assumes dist: "distinct (map fst (localState st2))"
    and can: "\<forall>k \<in> fst ` set (localState st2). canonical cfg env k"
    and f2: "Map_get (localState st2) p = Some f2"
    and g: "Map_get (s3State st2) p = Some g"
    and eq: "md5 f2 = md5 g"
  shows "\<not> uploadLine p (newEvents st2 (final (performInitialSync_uploads cfg env (localState st2) st2)))"
    and "thrown (performInitialSync_uploads cfg env (localState st2) st2) \<noteq>
         Some (ReadFileSyncFailed (path_join (localFolderPath cfg) p))"
    and "Map_get (s3State (final (performInitialSync_uploads cfg env (localState st2) st2))) p = Some g"
    and "bucket (final (performInitialSync_uploads cfg env (localState st2) st2)) p = bucket st2 p"
proof -
  have es: "\<forall>(k, localFile) \<in> set (localState st2). k = p \<longrightarrow> md5 localFile = md5 g"
    using entries_agree [OF dist f2] eq by fastforce
  have cp: "canonical cfg env p"
    using can Map_get_in [OF f2] by force
  note u = uploads_equal_untouched [OF es g can]
  show "\<not> uploadLine p (newEvents st2 (final (performInitialSync_uploads cfg env (localState st2) st2)))"
    using u linesOf_not_upload by blast
  show "thrown (performInitialSync_uploads cfg env (localState st2) st2) \<noteq>
      Some (ReadFileSyncFailed (path_join (localFolderPath cfg) p))"
    by (rule uploads_equal_not_thrown [OF es g can cp])
  show "Map_get (s3State (final (performInitialSync_uploads cfg env (localState st2) st2))) p = Some g"
    and "bucket (final (performInitialSync_uploads cfg env (localState st2) st2)) p = bucket st2 p"
    using u by simp_all
qed

lemma dry_downloads:
  assumes "isDryRun cfg"
  shows "localState (performInitialSync_downloads cfg env es st) = localState st \<and>
         disk (performInitialSync_downloads cfg env es st) = disk st"
  by (rule downloads_rule) (simp_all add: downloadStep_def assms)

lemma dry_uploads:
  assumes "isDryRun cfg"
  shows "thrown (performInitialSync_uploads cfg env es st) = None \<and>
         s3State (final (performInitialSync_uploads cfg env es st)) = s3State st \<and>
         bucket (final (performInitialSync_uploads cfg env es st)) = bucket st"
proof (induction es arbitrary: st)
  case Nil
  then show ?case by simp
next
  case (Cons e es)
  obtain k f where e: "e = (k, f)" by (cases e)
  show ?case
    using Cons.IH [of st] Cons.IH [of "logLine (WouldUpload k) st"] assms
    by (simp add: e)
qed

lemma dry_deletesS3:
  assumes "isDryRun cfg"
  shows "s3State (performInitialSync_deletesS3 cfg env ks st) = s3State st \<and>
         bucket (performInitialSync_deletesS3 cfg env ks st) = bucket st"
  by (rule deletesS3_rule) (simp_all add: deleteS3Step_def assms)

lemma dry_deletesLocal:
  assumes "isDryRun cfg"
  shows "localState (performInitialSync_deletesLocal cfg env ks st) = localState st \<and>
         disk (performInitialSync_deletesLocal cfg env ks st) = disk st"
  by (rule deletesLocal_rule) (simp_all add: deleteLocalStep_def assms)

lemma not_upload_in_deletes:
  "\<not> uploadLine p
      (newEvents st3 (performInitialSync_deletesS3 cfg env (map fst (s3State st3)) st3))"
  "\<not> uploadLine p
      (newEvents (performInitialSync_deletesS3 cfg env (map fst (s3State st3)) st3)
         (afterDeletes cfg env st3))"
  by (rule linesOf_not_upload [OF afterDeletes_lines(1)], simp)
    (rule linesOf_not_upload [OF afterDeletes_lines(2)], simp)

lemma not_upload_in_downloads:
  "\<not> uploadLine p (newEvents (logLine PerformingInitialSync st) (afterDownloads cfg env st))"
  unfolding afterDownloads_def
  by (rule linesOf_not_upload [OF downloads_lines]) simp

subsection \<open>Dry-run\<close>

lemma quiet_refl [simp]: "quiet st st"
  by (simp add: quiet_def)

lemma quiet_trans: "quiet a b \<Longrightarrow> quiet b c \<Longrightarrow> quiet a c"
  unfolding quiet_def using newEvents_trans [of a b c] grows_trans [of a b c] by auto

lemma quiet_logLine: "\<not> isOperation e \<Longrightarrow> quiet st (logLine e st)"
  by (simp add: quiet_def)

lemma dry_downloadStep: "isDryRun cfg \<Longrightarrow> quiet st (downloadStep cfg env k f st)"
  by (simp add: downloadStep_def quiet_logLine)

lemma dry_uploadStep:
  "isDryRun cfg \<Longrightarrow> \<exists>st'. uploadStep cfg env k f st = Inr st' \<and> quiet st st'"
  by (simp add: uploadStep_def quiet_logLine)

lemma dry_deleteS3Step: "isDryRun cfg \<Longrightarrow> quiet st (deleteS3Step cfg env k st)"
  by (simp add: deleteS3Step_def quiet_logLine)

lemma dry_deleteLocalStep: "isDryRun cfg \<Longrightarrow> quiet st (deleteLocalStep cfg env k st)"
  by (simp add: deleteLocalStep_def quiet_logLine)

lemma dry_downloads_quiet:
  "isDryRun cfg \<Longrightarrow> quiet st (performInitialSync_downloads cfg env es st)"
  by (rule downloads_rule) (auto intro: quiet_trans dry_downloadStep)

lemma dry_deletesS3_quiet:
  "isDryRun cfg \<Longrightarrow> quiet st (performInitialSync_deletesS3 cfg env ks st)"
  by (rule deletesS3_rule) (auto intro: quiet_trans dry_deleteS3Step)

lemma dry_deletesLocal_quiet:
  "isDryRun cfg \<Longrightarrow> quiet st (performInitialSync_deletesLocal cfg env ks st)"
  by (rule deletesLocal_rule) (auto intro: quiet_trans dry_deleteLocalStep)

lemma dry_uploads_quiet:
  assumes "isDryRun cfg"
  shows "\<exists>st'. performInitialSync_uploads cfg env es st = Inr st' \<and> quiet st st'"
proof (induction es arbitrary: st)
  case Nil
  then show ?case by simp
next
  case (Cons e es)
  obtain k f where e: "e = (k, f)" by (cases e)
  obtain s1 where s1: "uploadStep cfg env k f st = Inr s1" "quiet st s1"
    using dry_uploadStep [OF assms] by blast
  obtain s2 where "performInitialSync_uploads cfg env es s1 = Inr s2" "quiet s1 s2"
    using Cons.IH by blast
  then show ?case
    using s1 quiet_trans
    by (auto simp add: e uploads_Cons simp del: performInitialSync_uploads.simps(2))
qed

lemma performInitialSync_dry_run:
  assumes "isDryRun cfg"
  shows "\<exists>st'. performInitialSync cfg env st = Inr st' \<and> quiet st st'"
proof -
  let ?st1 = "logLine PerformingInitialSync st"
  let ?st2 = "afterDownloads cfg env st"
  have q2: "quiet st ?st2"
    unfolding afterDownloads_def
    using quiet_trans [OF quiet_logLine dry_downloads_quiet [OF assms]] by simp
  obtain st3 where st3: "afterUploads cfg env st = Inr st3" "quiet ?st2 st3"
    unfolding afterUploads_def using dry_uploads_quiet [OF assms] by blast
  have "quiet st3 (afterDeletes cfg env st3)"
    unfolding afterDeletes_def Let_def
    by (rule quiet_trans [OF dry_deletesS3_quiet [OF assms] dry_deletesLocal_quiet [OF assms]])
  then have "quiet st (logLine InitialSyncCompleted (afterDeletes cfg env st3))"
    using q2 st3(2) quiet_trans quiet_logLine [of InitialSyncCompleted] by (meson isOperation.simps)
  then show ?thesis
    using st3(1) by (simp add: performInitialSync_phases)
qed

subsection \<open>A pass over maps that agree\<close>

lemma downloads_idle:
  assumes "\<forall>(k, g) \<in> set es. \<exists>f. Map_get (localState st) k = Some f \<and> md5 f = md5 g"
  shows "performInitialSync_downloads cfg env es st = st"
proof (rule downloads_rule)
  show "st = st" by simp
next
  fix k g and s :: Sys
  assume "(k, g) \<in> set es" "s = st"
  then show "downloadStep cfg env k g s = st"
    using assms by (auto simp: downloadStep_idle)
qed

lemma uploads_idle:
  assumes "\<forall>(k, f) \<in> set es. \<exists>g. Map_get (s3State st) k = Some g \<and> md5 f = md5 g"
  shows "performInitialSync_uploads cfg env es st = Inr st"
  using assms
proof (induction es)
  case Nil
  then show ?case by simp
next
  case (Cons e es)
  obtain k f where e: "e = (k, f)" by (cases e)
  have "uploadStep cfg env k f st = Inr st"
    using Cons.prems e by (auto simp: uploadStep_idle)
  then show ?case
    using Cons by (simp add: e uploads_Cons del: performInitialSync_uploads.simps(2))
qed

lemma inSync_idle:
  assumes wf: "wellFormed st" and sync: "inSync st"
  shows "performInitialSync cfg env st =
     Inr (logLine InitialSyncCompleted (logLine PerformingInitialSync st))"
proof -
  let ?st1 = "logLine PerformingInitialSync st"
  have keys: "fst ` set (localState st) = fst ` set (s3State st)"
    and same: "\<And>k f g. Map_get (localState st) k = Some f \<Longrightarrow> Map_get (s3State st) k = Some g
        \<Longrightarrow> md5 f = md5 g"
    using sync by (auto simp: inSync_def)
  have d: "distinct (map fst (localState st))" "distinct (map fst (s3State st))"
    using wf by (simp_all add: wellFormed_def)
  have 1: "\<forall>(k, g) \<in> set (s3State st). \<exists>f. Map_get (localState ?st1) k = Some f \<and> md5 f = md5 g"
  proof clarify
    fix k g
    assume kg: "(k, g) \<in> set (s3State st)"
    then have "k \<in> fst ` set (localState st)" using keys by force
    then obtain f where f: "(k, f) \<in> set (localState st)" by auto
    have "Map_get (localState st) k = Some f" "Map_get (s3State st) k = Some g"
      using Map_get_entry d f kg by simp_all
    then show "\<exists>f. Map_get (localState ?st1) k = Some f \<and> md5 f = md5 g"
      using same by auto
  qed
  have 2: "\<forall>(k, f) \<in> set (localState st). \<exists>g. Map_get (s3State ?st1) k = Some g \<and> md5 f = md5 g"
  proof clarify
    fix k f
    assume kf: "(k, f) \<in> set (localState st)"
    then have "k \<in> fst ` set (s3State st)" using keys by force
    then obtain g where g: "(k, g) \<in> set (s3State st)" by auto
    have "Map_get (localState st) k = Some f" "Map_get (s3State st) k = Some g"
      using Map_get_entry d g kf by simp_all
    then show "\<exists>g. Map_get (s3State ?st1) k = Some g \<and> md5 f = md5 g"
      using same by auto
  qed
  have a: "afterDownloads cfg env st = ?st1"
    unfolding afterDownloads_def using downloads_idle [OF 1] by simp
  have b: "afterUploads cfg env st = Inr ?st1"
    unfolding afterUploads_def a using uploads_idle [of "localState ?st1" ?st1] 2 by simp
  have c: "afterDeletes cfg env ?st1 = ?st1"
    unfolding afterDeletes_def Let_def
    using deletesS3_idle [of "map fst (s3State ?st1)" ?st1 cfg env]
      deletesLocal_idle [of "map fst (localState ?st1)" ?st1 cfg env] keys
    by (simp add: Map_has_def)
  show ?thesis
    by (simp add: performInitialSync_phases b c)
qed

subsection \<open>A pass whose operations all succeed\<close>

lemma localMatchesDisk_describes:
  assumes "localMatchesDisk cfg env st"
  shows "describesFolder cfg env st"
  unfolding describesFolder_def
proof (intro allI impI)
  fix k f
  assume "Map_get (localState st) k = Some f"
  then have "(k, f) \<in> set (localState st)"
    by (rule Map_get_in)
  then have "case disk st (fileOf cfg env k) of None \<Rightarrow> False | Some c \<Rightarrow> digest env c = md5 f"
    using assms by (auto simp: localMatchesDisk_def list_all_iff)
  then show "\<exists>c. disk st (fileOf cfg env k) = Some c \<and> digest env c = md5 f"
    by (simp split: option.splits)
qed

lemma describes_localMatchesDisk:
  assumes "distinct (map fst (localState st))" and "describesFolder cfg env st"
  shows "localMatchesDisk cfg env st"
  unfolding localMatchesDisk_def list_all_iff
proof
  fix e
  assume e: "e \<in> set (localState st)"
  obtain k f where kf: "e = (k, f)"
    by (cases e)
  have "Map_get (localState st) k = Some f"
    using assms(1) e kf by (simp add: Map_get_entry)
  then have "\<exists>c. disk st (fileOf cfg env k) = Some c \<and> digest env c = md5 f"
    using assms(2) by (simp add: describesFolder_def)
  then show "case e of (k, f) \<Rightarrow>
      (case disk st (fileOf cfg env k) of None \<Rightarrow> False | Some c \<Rightarrow> digest env c = md5 f)"
    unfolding kf by auto
qed

lemma downloadStep_matches:
  assumes real: "\<not> isDryRun cfg"
    and lm: "describesFolder cfg env st"
    and can: "\<forall>k' \<in> fst ` set (localState st). canonical cfg env k'"
    and ck: "canonical cfg env k"
    and ok: "ErrorDownloading k \<notin> set (newEvents st (downloadStep cfg env k g st))"
  shows "describesFolder cfg env (downloadStep cfg env k g st)"
proof (cases "downloadStep cfg env k g st = st")
  case True
  then show ?thesis using lm by simp
next
  case False
  then have step: "downloadStep cfg env k g st = downloadFromS3 cfg env k st"
    using real by (auto simp: downloadStep_def split: if_splits)
  then obtain c where d: "downloadFromS3 cfg env k st =
        st\<lparr>disk := (disk st)(fileOf cfg env k \<mapsto> c), console := console st @ [Downloaded k],
           localState := Map_set (localState st) k
             \<lparr>path = k, md5 = digest env c, lastModified = now st\<rparr>\<rparr>"
    using download_cases [where st = st and k = k and env = env and cfg = cfg] ok by auto
  show ?thesis
    unfolding step d describesFolder_def
  proof (intro allI impI)
    fix k' f'
    let ?st' = "st\<lparr>disk := (disk st)(fileOf cfg env k \<mapsto> c),
        console := console st @ [Downloaded k],
        localState := Map_set (localState st) k
          \<lparr>path = k, md5 = digest env c, lastModified = now st\<rparr>\<rparr>"
    assume get: "Map_get (localState ?st') k' = Some f'"
    show "\<exists>c'. disk ?st' (fileOf cfg env k') = Some c' \<and> digest env c' = md5 f'"
    proof (cases "k' = k")
      case True
      then show ?thesis using get by auto
    next
      case False
      then have old: "Map_get (localState st) k' = Some f'"
        using get by simp
      then have "canonical cfg env k'"
        using can Map_get_in by force
      then have "fileOf cfg env k' \<noteq> fileOf cfg env k"
        using fileOf_neq [OF ck _ False] by simp
      then show ?thesis
        using lm old by (simp add: describesFolder_def)
    qed
  qed
qed

lemma downloads_matches:
  assumes real: "\<not> isDryRun cfg"
    and lm: "describesFolder cfg env st"
    and can: "\<forall>k' \<in> fst ` set (localState st). canonical cfg env k'"
    and can_es: "\<forall>k \<in> fst ` set es. canonical cfg env k"
    and ok: "\<forall>k. ErrorDownloading k \<notin> set (newEvents st (performInitialSync_downloads cfg env es st))"
  shows "describesFolder cfg env (performInitialSync_downloads cfg env es st)"
  using lm can can_es ok
proof (induction es arbitrary: st)
  case Nil
  then show ?case by simp
next
  case (Cons e es)
  obtain k g where e: "e = (k, g)" by (cases e)
  let ?st1 = "downloadStep cfg env k g st"
  let ?st' = "performInitialSync_downloads cfg env es ?st1"
  have eq: "performInitialSync_downloads cfg env (e # es) st = ?st'"
    by (simp only: e downloads_Cons)
  have ev: "set (newEvents st ?st') = set (newEvents st ?st1) \<union> set (newEvents ?st1 ?st')"
    by (rule newEvents_set) simp_all
  have no1: "ErrorDownloading k \<notin> set (newEvents st ?st1)"
    and no2: "\<forall>k. ErrorDownloading k \<notin> set (newEvents ?st1 ?st')"
    using Cons.prems(4) ev unfolding eq by auto
  have ck: "canonical cfg env k" and can': "\<forall>k \<in> fst ` set es. canonical cfg env k"
    using Cons.prems(3) e by simp_all
  have lm1: "describesFolder cfg env ?st1"
    by (rule downloadStep_matches [OF real Cons.prems(1,2) ck no1])
  have can1: "\<forall>k' \<in> fst ` set (localState ?st1). canonical cfg env k'"
    using downloadStep_keys(1) [of cfg env k g st] Cons.prems(2) ck by blast
  from Cons.IH [OF lm1 can1 can' no2] show ?case
    unfolding eq .
qed

lemma uploads_keys_mono:
  "fst ` set (s3State st) \<subseteq> fst ` set (s3State (final (performInitialSync_uploads cfg env es st)))"
proof (rule uploads_rule)
  show "fst ` set (s3State st) \<subseteq> fst ` set (s3State st)" by simp
next
  fix k f and s :: Sys
  assume "fst ` set (s3State st) \<subseteq> fst ` set (s3State s)"
  then show "fst ` set (s3State st) \<subseteq> fst ` set (s3State (final (uploadStep cfg env k f s)))"
    using uploadStep_keys(2) [of s cfg env k f] by (rule subset_trans)
qed

lemma uploadStep_agrees:
  assumes real: "\<not> isDryRun cfg"
    and lm: "describesFolder cfg env st"
    and ck: "canonical cfg env k"
    and f: "Map_get (localState st) k = Some f"
    and run: "uploadStep cfg env k f st = Inr st'"
    and ok: "ErrorUploading k \<notin> set (newEvents st st')"
  shows "\<exists>g. Map_get (s3State st') k = Some g \<and> md5 f = md5 g"
proof (cases "case Map_get (s3State st) k of None \<Rightarrow> True | Some g \<Rightarrow> md5 f \<noteq> md5 g")
  case False
  then have "uploadStep cfg env k f st = Inr st" by (simp add: uploadStep_def)
  then show ?thesis using False run by (auto split: option.splits)
next
  case True
  then have step: "uploadStep cfg env k f st =
      uploadToS3 cfg env (path_join (localFolderPath cfg) k) st"
    using real by (simp add: uploadStep_def)
  obtain c where c: "disk st (fileOf cfg env k) = Some c" "digest env c = md5 f"
    using lm f by (auto simp: describesFolder_def)
  have "uploadToS3 cfg env (path_join (localFolderPath cfg) k) st =
        Inr (st\<lparr>bucket := (bucket st)(k \<mapsto> c), console := console st @ [Uploaded k],
           s3State := Map_set (s3State st) k
             \<lparr>path = k, md5 = digest env c, lastModified = now st\<rparr>\<rparr>)"
    using upload_cases [where st = st and env = env and cfg = cfg
        and filePath = "path_join (localFolderPath cfg) k"] run ok c(1) ck
    unfolding step by (auto simp: fileOf_def)
  then show ?thesis
    using run c(2) unfolding step by auto
qed

lemma uploads_agree:
  assumes real: "\<not> isDryRun cfg"
    and lm: "describesFolder cfg env st"
    and can: "\<forall>k \<in> fst ` set es. canonical cfg env k"
    and es: "\<forall>(k, f) \<in> set es. Map_get (localState st) k = Some f"
    and run: "performInitialSync_uploads cfg env es st = Inr st'"
    and ok: "\<forall>k. ErrorUploading k \<notin> set (newEvents st st')"
  shows "\<forall>(k, f) \<in> set es. \<exists>g. Map_get (s3State st') k = Some g \<and> md5 f = md5 g"
  using lm can es run ok
proof (induction es arbitrary: st)
  case Nil
  then show ?case by simp
next
  case (Cons e es)
  obtain k f where e: "e = (k, f)" by (cases e)
  have ck: "canonical cfg env k" and can': "\<forall>k \<in> fst ` set es. canonical cfg env k"
    using Cons.prems(2) e by simp_all
  obtain s1 where s1: "uploadStep cfg env k f st = Inr s1"
    and rest: "performInitialSync_uploads cfg env es s1 = Inr st'"
    using Cons.prems(4)
    by (cases "uploadStep cfg env k f st")
      (auto simp add: e uploads_Cons simp del: performInitialSync_uploads.simps(2))
  have g1: "grows st s1"
    using uploadStep_frame(4) [where st = st and cfg = cfg and env = env and k = k and f = f] s1
    by simp
  have g2: "grows s1 st'"
    using uploads_grows [where st = s1 and cfg = cfg and env = env and es = es] rest by simp
  have ev: "set (newEvents st st') = set (newEvents st s1) \<union> set (newEvents s1 st')"
    by (rule newEvents_set [OF g1 g2])
  have f: "Map_get (localState st) k = Some f"
    using Cons.prems(3) e by simp
  have loc1: "localState s1 = localState st" and disk1: "disk s1 = disk st"
    using uploadStep_frame(1,2) [of cfg env k f st] s1 by simp_all
  have lm1: "describesFolder cfg env s1"
    using Cons.prems(1) by (simp add: describesFolder_def loc1 disk1)
  have es1: "\<forall>(k, f) \<in> set es. Map_get (localState s1) k = Some f"
    using Cons.prems(3) by (simp add: loc1)
  have ok1: "\<forall>k. ErrorUploading k \<notin> set (newEvents s1 st')"
    using Cons.prems(5) ev by simp
  have tail: "\<forall>(k, f) \<in> set es. \<exists>g. Map_get (s3State st') k = Some g \<and> md5 f = md5 g"
    by (rule Cons.IH [OF lm1 can' es1 rest ok1])
  obtain g where g: "Map_get (s3State s1) k = Some g" "md5 f = md5 g"
    using uploadStep_agrees [OF real Cons.prems(1) ck f s1] Cons.prems(5) ev by auto
  have "\<forall>(k', f') \<in> set es. k' = k \<longrightarrow> md5 f' = md5 g"
    using es1 f g(2) by (auto simp: loc1)
  from uploads_equal_untouched [OF this g(1) can']
  have "Map_get (s3State st') k = Some g"
    using rest by simp
  then show ?case
    using tail g(2) by (simp add: e)
qed

lemma successful_pass_converges:
  assumes real: "\<not> isDryRun cfg"
    and wf: "wellFormed st"
    and can: "canonicalKeys cfg env st"
    and lm: "describesFolder cfg env st"
    and run: "performInitialSync cfg env st = Inr st'"
    and ok: "list_all (\<lambda>e. \<not> isError e) (newEvents st st')"
  shows "inSync st'" and "wellFormed st'"
    and "fst ` set (localState st') = fst ` set (localState st) \<union> fst ` set (s3State st)"
proof -
  let ?st1 = "logLine PerformingInitialSync st"
  let ?st2 = "afterDownloads cfg env st"
  obtain st3 where st3: "afterUploads cfg env st = Inr st3"
    and st': "st' = logLine InitialSyncCompleted (afterDeletes cfg env st3)"
    using run by (auto simp: performInitialSync_phases split: sum.splits)
  have fin: "final (performInitialSync cfg env st) = st'" using run by simp
  have ev: "newEvents st st' =
     PerformingInitialSync # newEvents ?st1 ?st2 @ newEvents ?st2 st3 @
       newEvents st3 (performInitialSync_deletesS3 cfg env (map fst (s3State st3)) st3) @
       newEvents (performInitialSync_deletesS3 cfg env (map fst (s3State st3)) st3)
         (afterDeletes cfg env st3) @ [InitialSyncCompleted]"
    using performInitialSync_events [of st cfg env] st3 unfolding fin by simp
  have noerr: "\<And>e. e \<in> set (newEvents ?st1 ?st2) \<Longrightarrow> \<not> isError e"
    "\<And>e. e \<in> set (newEvents ?st2 st3) \<Longrightarrow> \<not> isError e"
    using ok unfolding ev by (simp_all add: list_all_iff)
  have ok12: "\<forall>k. ErrorDownloading k \<notin> set (newEvents ?st1 ?st2)"
    using noerr(1) by force
  have ok23: "\<forall>k. ErrorUploading k \<notin> set (newEvents ?st2 st3)"
    using noerr(2) by force
  have d: "distinct (map fst (localState st))" "distinct (map fst (s3State st))"
    using wf by (simp_all add: wellFormed_def)
  \<comment> \<open>after the downloads\<close>
  have lm1: "describesFolder cfg env ?st1"
    using lm by (simp add: describesFolder_def)
  have can_loc: "\<forall>k \<in> fst ` set (localState ?st1). canonical cfg env k"
    and can_s3: "\<forall>k \<in> fst ` set (s3State st). canonical cfg env k"
    using can by (simp_all add: canonicalKeys_iff)
  have can2: "\<forall>k \<in> fst ` set (localState ?st2). canonical cfg env k"
    by (rule afterDownloads_canonical [OF can])
  have lm2: "describesFolder cfg env ?st2"
    unfolding afterDownloads_def
    by (rule downloads_matches [OF real lm1 can_loc can_s3 ok12 [unfolded afterDownloads_def]])
  have has2: "fst ` set (s3State st) \<subseteq> fst ` set (localState ?st2)"
    using downloads_has [OF real, of ?st1 env "s3State st"] ok12
    unfolding afterDownloads_def Map_has_def set_map by auto
  have keys2: "fst ` set (localState ?st2) = fst ` set (localState st) \<union> fst ` set (s3State st)"
    using downloads_keys [of cfg env "s3State st" ?st1]
      downloads_keys_mono [of ?st1 cfg env "s3State st"] has2
    unfolding afterDownloads_def by auto
  have d2: "distinct (map fst (localState ?st2))"
    unfolding afterDownloads_def using d(1) by (intro downloads_distinct) simp
  \<comment> \<open>after the uploads\<close>
  have loc3: "localState st3 = localState ?st2"
    using afterUploads_frame(1) [of cfg env st] st3 by simp
  have es2: "\<forall>(k, f) \<in> set (localState ?st2). Map_get (localState ?st2) k = Some f"
    using Map_get_entry [OF d2] by auto
  have agree: "\<forall>(k, f) \<in> set (localState ?st2).
      \<exists>g. Map_get (s3State st3) k = Some g \<and> md5 f = md5 g"
    by (rule uploads_agree [OF real lm2 can2 es2 st3 [unfolded afterUploads_def] ok23])
  have "fst ` set (s3State st3) \<subseteq> fst ` set (s3State ?st2) \<union> fst ` set (localState ?st2)"
    using uploads_keys [OF can2, of ?st2] st3 by (simp add: afterUploads_def)
  then have s3_in_loc: "fst ` set (s3State st3) \<subseteq> fst ` set (localState st3)"
    using has2 loc3 by auto
  have loc_in_s3: "fst ` set (localState st3) \<subseteq> fst ` set (s3State st3)"
  proof
    fix k
    assume "k \<in> fst ` set (localState st3)"
    then obtain f where "(k, f) \<in> set (localState ?st2)" using loc3 by auto
    then obtain g where "Map_get (s3State st3) k = Some g" using agree by auto
    then show "k \<in> fst ` set (s3State st3)" using Map_get_in by force
  qed
  have d3: "distinct (map fst (s3State st3))"
    using uploads_distinct [of ?st2 cfg env "localState ?st2"] d(2) st3
    by (simp add: afterUploads_def)
  \<comment> \<open>nothing to delete\<close>
  have i4: "performInitialSync_deletesS3 cfg env (map fst (s3State st3)) st3 = st3"
    by (rule deletesS3_idle) (use s3_in_loc in \<open>auto simp: Map_has_def\<close>)
  have i5: "performInitialSync_deletesLocal cfg env (map fst (localState st3)) st3 = st3"
    by (rule deletesLocal_idle) (use loc_in_s3 in \<open>auto simp: Map_has_def\<close>)
  have idle: "afterDeletes cfg env st3 = st3"
    by (simp add: afterDeletes_def Let_def i4 i5)
  have st'': "st' = logLine InitialSyncCompleted st3"
    using st' idle by simp
  show "wellFormed st'"
    unfolding st'' using d2 d3 loc3 by (simp add: wellFormed_def)
  show "fst ` set (localState st') = fst ` set (localState st) \<union> fst ` set (s3State st)"
    unfolding st'' using keys2 loc3 by simp
  show "inSync st'"
    unfolding inSync_def st''
  proof (intro conjI allI impI)
    show "set (map fst (localState (logLine InitialSyncCompleted st3))) =
        set (map fst (s3State (logLine InitialSyncCompleted st3)))"
      using s3_in_loc loc_in_s3 by auto
  next
    fix k f g
    assume "Map_get (localState (logLine InitialSyncCompleted st3)) k = Some f \<and>
        Map_get (s3State (logLine InitialSyncCompleted st3)) k = Some g"
    then have f: "Map_get (localState ?st2) k = Some f" and g: "Map_get (s3State st3) k = Some g"
      using loc3 by simp_all
    have "(k, f) \<in> set (localState ?st2)" by (rule Map_get_in [OF f])
    then show "md5 f = md5 g" using agree g by auto
  qed
qed


subsection \<open>What the start-up scans establish\<close>

lemma initializeS3State_loop_frame [simp]:
  "localState (initializeS3State_loop contents st) = localState st"
  "disk (initializeS3State_loop contents st) = disk st"
  "bucket (initializeS3State_loop contents st) = bucket st"
  by (induction contents arbitrary: st; simp add: Let_def)+

lemma initializeS3State_loop_distinct:
  "distinct (map fst (s3State st)) \<Longrightarrow>
   distinct (map fst (s3State (initializeS3State_loop contents st)))"
  by (induction contents arbitrary: st) (simp_all add: Let_def)

lemma initializeS3State_frame [simp]:
  "localState (initializeS3State env st) = localState st"
  "disk (initializeS3State env st) = disk st"
  "bucket (initializeS3State env st) = bucket st"
  by (simp_all add: initializeS3State_def split: ListResponse.splits option.splits)

lemma initializeS3State_distinct:
  "distinct (map fst (s3State st)) \<Longrightarrow> distinct (map fst (s3State (initializeS3State env st)))"
  by (simp add: initializeS3State_def initializeS3State_loop_distinct
      split: ListResponse.splits option.splits)

lemma initializeLocalState_loop_scanned:
  assumes "initializeLocalState_loop cfg env entries st = Inr st'"
    and "wellFormed st" "describesFolder cfg env st"
  shows "wellFormed st' \<and> describesFolder cfg env st' \<and> s3State st' = s3State st \<and>
         disk st' = disk st \<and> bucket st' = bucket st"
  using assms
proof (induction entries arbitrary: st)
  case Nil
  then show ?case by simp
next
  case (Cons entry entries)
  let ?filePath = "path_join (localFolderPath cfg) entry"
  show ?case
  proof (cases "disk st (fileOf cfg env entry)")
    case None
    then have "initializeLocalState_loop cfg env entries st = Inr st'"
      using Cons.prems(1) by (simp add: fileOf_def Let_def split: if_splits)
    then show ?thesis using Cons.IH Cons.prems(2,3) by blast
  next
    case (Some c)
    then obtain h where h: "calculateMD5 env st ?filePath = Some h"
      using Cons.prems(1) by (auto simp: fileOf_def Let_def split: option.splits)
    then have hc: "h = digest env c"
      using Some by (auto simp: calculateMD5_def fileOf_def split: if_splits)
    let ?st1 = "st\<lparr>localState := Map_set (localState st) entry
        \<lparr>path = entry, md5 = h, lastModified = mtime env ?filePath\<rparr>\<rparr>"
    have run: "initializeLocalState_loop cfg env entries ?st1 = Inr st'"
      using Cons.prems(1) Some h by (simp add: fileOf_def Let_def)
    have "wellFormed ?st1"
      using Cons.prems(2) by (simp add: wellFormed_def)
    moreover have "describesFolder cfg env ?st1"
      using Cons.prems(3) Some hc by (auto simp: describesFolder_def)
    ultimately show ?thesis
      using Cons.IH [OF run] by simp
  qed
qed

lemma scans_establish:
  assumes "localState st = []" "s3State st = []"
    and "initializeLocalState cfg env (initializeS3State env st) = Inr st1"
  shows "wellFormed st1" and "describesFolder cfg env st1" and "localMatchesDisk cfg env st1"
proof -
  let ?st0 = "initializeS3State env st"
  have "wellFormed ?st0"
    using assms(1,2) initializeS3State_distinct [of st env] by (simp add: wellFormed_def)
  moreover have "describesFolder cfg env ?st0"
    using assms(1) by (simp add: describesFolder_def Map_get_def)
  moreover obtain files where "initializeLocalState_loop cfg env files ?st0 = Inr st1"
    using assms(3) by (auto simp: initializeLocalState_def split: option.splits)
  ultimately show wf: "wellFormed st1" and d: "describesFolder cfg env st1"
    using initializeLocalState_loop_scanned by blast+
  show "localMatchesDisk cfg env st1"
    using wf d by (simp add: wellFormed_def describes_localMatchesDisk)
qed

text \<open>From empty maps, when every name that the scans found is a normalised relative
  path, a start-up that completes without logging an error leaves the two maps with the
  same keys and the same fingerprints, and a second full pass would do nothing.\<close>

lemma main_converges:
  assumes "\<not> isDryRun cfg" "localState st = []" "s3State st = []"
    and "initializeLocalState cfg env (initializeS3State env st) = Inr st1"
    and "canonicalKeys cfg env st1"
    and "main cfg env st = Inr st'"
    and "list_all (\<lambda>e. \<not> isError e) (newEvents st1 st')"
  shows "inSync st'"
    and "performInitialSync cfg env st' =
      Inr (logLine InitialSyncCompleted (logLine PerformingInitialSync st'))"
proof -
  have run: "performInitialSync cfg env st1 = Inr st'"
    using assms(4,6) by (simp add: main_def)
  note e = scans_establish [OF assms(2,3,4)]
  note c = successful_pass_converges [OF assms(1) e(1) assms(5) e(2) run assms(7)]
  show "inSync st'" by (rule c(1))
  show "performInitialSync cfg env st' =
      Inr (logLine InitialSyncCompleted (logLine PerformingInitialSync st'))"
    by (rule inSync_idle [OF c(2) c(1)])
qed


subsection \<open>An upload that follows the download of its path\<close>

lemma upload_bucket_same:
  assumes "disk st (path_resolve env filePath) = Some c"
    and "bucket st (path_relative env (localFolderPath cfg) filePath) = Some c"
  shows "bucket (final (uploadToS3 cfg env filePath st))
           (path_relative env (localFolderPath cfg) filePath) = Some c"
  using assms
  by (auto simp: uploadToS3_def readFileSync_def calculateMD5_def logLine_def Let_def final_def
      split: option.splits)

lemma upload_record:
  assumes "disk st (path_resolve env filePath) = Some c"
    and "uploadToS3 cfg env filePath st = Inr st'"
    and "ErrorUploading (path_relative env (localFolderPath cfg) filePath)
           \<notin> set (newEvents st st')"
  shows "\<exists>g'. Map_get (s3State st') (path_relative env (localFolderPath cfg) filePath) = Some g' \<and>
           md5 g' = digest env c"
  using assms upload_cases [where st = st and env = env and cfg = cfg and filePath = filePath]
  by auto

lemma uploads_same_content:
  assumes dist: "distinct (map fst es)"
    and mem: "(p, f2) \<in> set es"
    and can: "\<forall>k \<in> fst ` set es. canonical cfg env k"
    and g: "Map_get (s3State st) p = Some g"
    and d: "disk st (fileOf cfg env p) = Some c"
    and b: "bucket st p = Some c"
    and f2: "md5 f2 = digest env c"
    and real: "\<not> isDryRun cfg"
    and run: "performInitialSync_uploads cfg env es st = Inr st3"
  shows "bucket st3 p = Some c"
    and "\<exists>g'. Map_get (s3State st3) p = Some g' \<and>
           (ErrorUploading p \<notin> set (newEvents st st3) \<longrightarrow> md5 g' = digest env c)"
proof -
  obtain pre post where es: "es = pre @ (p, f2) # post"
    using mem by (meson split_list)
  have pre: "p \<notin> fst ` set pre" and post: "p \<notin> fst ` set post"
    using dist unfolding es by auto
  have can_pre: "\<forall>k \<in> fst ` set pre. canonical cfg env k"
    and can_post: "\<forall>k \<in> fst ` set post. canonical cfg env k"
    and cp: "canonical cfg env p"
    using can unfolding es by simp_all
  obtain s1 where s1: "performInitialSync_uploads cfg env pre st = Inr s1"
    using run unfolding es uploads_append
    by (cases "performInitialSync_uploads cfg env pre st") auto
  obtain s2 where s2: "uploadStep cfg env p f2 s1 = Inr s2"
    using run s1 unfolding es uploads_append
    by (cases "uploadStep cfg env p f2 s1")
      (auto simp add: uploads_Cons simp del: performInitialSync_uploads.simps(2))
  have s3: "performInitialSync_uploads cfg env post s2 = Inr st3"
    using run s1 s2 unfolding es uploads_append
    by (simp add: uploads_Cons del: performInitialSync_uploads.simps(2))
  have g1: "grows st s1"
    using uploads_grows [where st = st and cfg = cfg and env = env and es = pre] s1 by simp
  have g2: "grows s1 s2"
    using uploadStep_frame(4) [where st = s1 and cfg = cfg and env = env and k = p and f = f2] s2
    by simp
  have g3: "grows s2 st3"
    using uploads_grows [where st = s2 and cfg = cfg and env = env and es = post] s3 by simp
  have ev: "newEvents st st3 = newEvents st s1 @ newEvents s1 s2 @ newEvents s2 st3"
    using newEvents_trans [OF g1 grows_trans [OF g2 g3]] newEvents_trans [OF g2 g3]
    by simp
  have o1: "Map_get (s3State s1) p = Some g" "bucket s1 p = Some c"
    using uploads_other [OF pre can_pre, of st] s1 g b by simp_all
  have d1: "disk s1 (fileOf cfg env p) = Some c"
    using uploads_frame(2) [of cfg env pre st] s1 d by simp
  have o3: "Map_get (s3State st3) p = Map_get (s3State s2) p" "bucket st3 p = bucket s2 p"
    using uploads_other [OF post can_post, of s2] s3 by simp_all
  have step: "bucket s2 p = Some c \<and>
      (\<exists>g'. Map_get (s3State s2) p = Some g' \<and>
         (ErrorUploading p \<notin> set (newEvents s1 s2) \<longrightarrow> md5 g' = digest env c))"
  proof (cases "md5 f2 = md5 g")
    case True
    then have "s2 = s1"
      using s2 o1(1) by (simp add: uploadStep_idle)
    then show ?thesis using o1 True f2 by simp
  next
    case False
    let ?filePath = "path_join (localFolderPath cfg) p"
    have up: "uploadToS3 cfg env ?filePath s1 = Inr s2"
      using s2 o1(1) False real by (simp add: uploadStep_def)
    have key: "path_relative env (localFolderPath cfg) ?filePath = p"
      using cp by simp
    have d1': "disk s1 (path_resolve env ?filePath) = Some c"
      using d1 by (simp add: fileOf_def)
    have "bucket s2 p = Some c"
      using upload_bucket_same [OF d1', of cfg] o1(2) up by (simp add: key)
    moreover have "\<exists>g'. Map_get (s3State s2) p = Some g' \<and> md5 g' = digest env c"
      if "ErrorUploading p \<notin> set (newEvents s1 s2)"
      using upload_record [OF d1' up] that by (simp add: key)
    moreover have "\<exists>g'. Map_get (s3State s2) p = Some g'"
    proof -
      have "p \<in> fst ` set (s3State s1)"
        using Map_get_in [OF o1(1)] by force
      then have "p \<in> fst ` set (s3State s2)"
        using uploadStep_keys(2) [of s1 cfg env p f2] s2 by auto
      then have "Map_get (s3State s2) p \<noteq> None"
        using Map_has_get [of "s3State s2" p] by (simp add: Map_has_def)
      then show ?thesis by auto
    qed
    ultimately show ?thesis by blast
  qed
  show "bucket st3 p = Some c"
    using step o3 by simp
  obtain g' where g': "Map_get (s3State s2) p = Some g'"
    "ErrorUploading p \<notin> set (newEvents s1 s2) \<longrightarrow> md5 g' = digest env c"
    using step by blast
  have "Map_get (s3State st3) p = Some g'"
    using g'(1) o3(1) by simp
  moreover have "ErrorUploading p \<notin> set (newEvents st st3) \<longrightarrow> md5 g' = digest env c"
    using g'(2) unfolding ev by simp
  ultimately show "\<exists>g'. Map_get (s3State st3) p = Some g' \<and>
           (ErrorUploading p \<notin> set (newEvents st st3) \<longrightarrow> md5 g' = digest env c)"
    by blast
qed

subsection \<open>The scenarios, evaluated\<close>

lemma splitPath_data [simp]:
  "splitPath ''/data'' = [[], ''data'']"
  "splitPath ''/data/a.txt'' = [[], ''data'', ''a.txt'']"
  "splitPath ''/data/b.txt'' = [[], ''data'', ''b.txt'']"
  "splitPath ''/data/c.txt'' = [[], ''data'', ''c.txt'']"
  "splitPath ''/data//a.txt'' = [[], ''data'', [], ''a.txt'']"
  by simp_all

lemma join_data [simp]:
  "path_join ''/data'' ''a.txt'' = ''/data/a.txt''"
  "path_join ''/data'' ''b.txt'' = ''/data/b.txt''"
  "path_join ''/data'' ''c.txt'' = ''/data/c.txt''"
  "path_join ''/data'' ''/a.txt'' = ''/data/a.txt''"
  by (simp_all add: path_join_def path_normalize_def isAbsolute_def)

lemma resolve_data [simp]:
  "path_resolve env ''/data'' = [''data'']"
  "path_resolve env ''/data/a.txt'' = [''data'', ''a.txt'']"
  "path_resolve env ''/data/b.txt'' = [''data'', ''b.txt'']"
  "path_resolve env ''/data/c.txt'' = [''data'', ''c.txt'']"
  by (simp_all add: path_resolve_def isAbsolute_def)

lemma relative_data [simp]:
  "path_relative env ''/data'' ''/data/a.txt'' = ''a.txt''"
  "path_relative env ''/data'' ''/data/b.txt'' = ''b.txt''"
  "path_relative env ''/data'' ''/data/c.txt'' = ''c.txt''"
  by (simp_all add: path_relative_def Let_def)

lemma canonical_data [simp]:
  "canonical realRun env ''a.txt''" "canonical realRun env ''b.txt''"
  "canonical realRun env ''c.txt''" "\<not> canonical realRun env ''/a.txt''"
  "canonical dryRun env ''a.txt''" "canonical dryRun env ''b.txt''"
  "canonical dryRun env ''c.txt''" "\<not> canonical dryRun env ''/a.txt''"
  by (simp_all add: canonical_def realRun_def dryRun_def)

lemma fileOf_data [simp]:
  "fileOf realRun env ''a.txt'' = [''data'', ''a.txt'']"
  "fileOf realRun env ''b.txt'' = [''data'', ''b.txt'']"
  "fileOf realRun env ''c.txt'' = [''data'', ''c.txt'']"
  "fileOf realRun env ''/a.txt'' = [''data'', ''a.txt'']"
  by (simp_all add: fileOf_def realRun_def)

lemmas demo_defs = never_def always_def demoDigest_def reliable_def unreliable_def
  demoFolder_def demoBucket_def demo_def

lemmas run_defs = performInitialSync_def downloadFromS3_def uploadToS3_def deleteFromS3_def
  deleteLocal_def readFileSync_def calculateMD5_def logLine_def Map_get_def Map_has_def
  Map_delete_def Let_def

lemmas periodic_defs = periodicSync_def syncS3ToLocal_def syncLocalToS3_def listedNewer_def
  restarted_def relisting_def listedC_def

lemma demo_run: "performInitialSync realRun reliable demo = Inr demoSynced"
  by (simp add: run_defs demo_defs realRun_def demoSynced_def)

lemma demo_dry_run:
  "performInitialSync dryRun reliable demo =
     Inr (demo\<lparr>console :=
       [PerformingInitialSync, WouldDownload ''b.txt'', WouldDownload ''c.txt'',
        WouldUpload ''a.txt'', WouldUpload ''c.txt'', WouldDeleteFromS3 ''b.txt'',
        WouldDeleteLocally ''a.txt'', InitialSyncCompleted]\<rparr>)"
  by (simp add: run_defs demo_defs dryRun_def)

lemma demo_c:
  "wellFormed demo"
  "canonicalKeys realRun reliable demo"
  "Map_get (localState demo) ''c.txt'' = Some \<lparr>path = ''c.txt'', md5 = ''#C1'', lastModified = 20\<rparr>"
  "Map_get (s3State demo) ''c.txt'' = Some \<lparr>path = ''c.txt'', md5 = ''#C2'', lastModified = 40\<rparr>"
  "md5 \<lparr>path = ''c.txt'', md5 = ''#C1'', lastModified = 20\<rparr> \<noteq>
   md5 \<lparr>path = ''c.txt'', md5 = ''#C2'', lastModified = 40\<rparr>"
  by (simp_all add: demo_def wellFormed_def Map_get_def canonicalKeys_def)

lemma demo_c_dry: "canonicalKeys dryRun reliable demo"
  by (simp add: demo_def canonicalKeys_def)

lemma apart_run: "performInitialSync realRun reliable apart = Inr apartSynced"
  by (simp add: run_defs demo_defs realRun_def apart_def apartSynced_def)

lemma apart_dry_run:
  "performInitialSync dryRun reliable apart =
     Inr (apart\<lparr>console :=
       [PerformingInitialSync, WouldDownload ''b.txt'', WouldUpload ''a.txt'',
        WouldDeleteFromS3 ''b.txt'', WouldDeleteLocally ''a.txt'', InitialSyncCompleted]\<rparr>)"
  by (simp add: run_defs demo_defs dryRun_def apart_def)

lemma aliased_run: "performInitialSync realRun reliable aliased = Inr aliasedSynced"
  by (simp add: run_defs demo_defs realRun_def aliased_def aliasedSynced_def)

lemma aliased_again:
  "performInitialSync realRun reliable aliasedSynced =
     Inr (aliasedSynced\<lparr>localState :=
            [(''a.txt'', \<lparr>path = ''a.txt'', md5 = ''#X'', lastModified = 100\<rparr>),
             (''/a.txt'', \<lparr>path = ''/a.txt'', md5 = ''#X'', lastModified = 100\<rparr>)],
          console := console aliasedSynced @
            [PerformingInitialSync, Downloaded ''a.txt'', InitialSyncCompleted]\<rparr>)"
  by (simp add: run_defs demo_defs realRun_def aliasedSynced_def)

lemma stale_run: "performInitialSync realRun reliable stale = Inr staleSynced"
  by (simp add: run_defs demo_defs realRun_def stale_def staleSynced_def)

lemma stale_again:
  "performInitialSync realRun reliable staleSynced =
     Inr (staleSynced\<lparr>localState :=
            [(''a.txt'', \<lparr>path = ''a.txt'', md5 = ''#NEW'', lastModified = 100\<rparr>)],
          console := console staleSynced @
            [PerformingInitialSync, Downloaded ''a.txt'', InitialSyncCompleted]\<rparr>)"
  by (simp add: run_defs demo_defs realRun_def staleSynced_def)

lemma slashed_run:
  "performInitialSync realRun reliable slashed =
     Inr (slashed\<lparr>localState :=
            [(''/a.txt'', \<lparr>path = ''/a.txt'', md5 = ''#A'', lastModified = 100\<rparr>)],
          disk := [[''data'', ''a.txt''] \<mapsto> ''A''],
          console :=
            [PerformingInitialSync, Downloaded ''/a.txt'', Uploaded ''a.txt'',
             DeletedFromS3 ''a.txt'', InitialSyncCompleted]\<rparr>)"
  by (simp add: run_defs demo_defs realRun_def slashed_def)

lemma shadowed_run:
  "performInitialSync realRun reliable shadowed =
     Inr (shadowed\<lparr>localState :=
            [(''a.txt'', \<lparr>path = ''a.txt'', md5 = ''#A'', lastModified = 10\<rparr>),
             (''/a.txt'', \<lparr>path = ''/a.txt'', md5 = ''#X'', lastModified = 100\<rparr>)],
          s3State :=
            [(''a.txt'', \<lparr>path = ''a.txt'', md5 = ''#X'', lastModified = 100\<rparr>),
             (''/a.txt'', \<lparr>path = ''/a.txt'', md5 = ''#X-2'', lastModified = 30\<rparr>)],
          disk := [[''data'', ''a.txt''] \<mapsto> ''X''],
          bucket := [''/a.txt'' \<mapsto> ''X'', ''a.txt'' \<mapsto> ''X''],
          console :=
            [PerformingInitialSync, Downloaded ''/a.txt'', Uploaded ''a.txt'',
             InitialSyncCompleted]\<rparr>)"
  by (simp add: run_defs demo_defs realRun_def shadowed_def)

lemma doubled_run:
  "performInitialSync realRun reliable doubled =
     Inr (doubled\<lparr>localState :=
            [(''a.txt'', \<lparr>path = ''a.txt'', md5 = ''#B'', lastModified = 100\<rparr>)],
          s3State :=
            [(''a.txt'', \<lparr>path = ''a.txt'', md5 = ''#B'', lastModified = 100\<rparr>)],
          disk := Map.empty,
          console :=
            [PerformingInitialSync, Downloaded ''a.txt'', Uploaded ''a.txt'', Uploaded ''a.txt'',
             DeletedLocally ''/data/a.txt'', InitialSyncCompleted]\<rparr>)"
  by (simp add: run_defs demo_defs realRun_def doubled_def)

lemma inParts_run:
  "performInitialSync realRun reliable inParts =
     Inr (inParts\<lparr>localState :=
            [(''c.txt'', \<lparr>path = ''c.txt'', md5 = ''#C2'', lastModified = 100\<rparr>)],
          s3State :=
            [(''c.txt'', \<lparr>path = ''c.txt'', md5 = ''#C2'', lastModified = 100\<rparr>)],
          disk := [[''data'', ''c.txt''] \<mapsto> ''C2''],
          console :=
            [PerformingInitialSync, Downloaded ''c.txt'', Uploaded ''c.txt'',
             InitialSyncCompleted]\<rparr>)"
  by (simp add: run_defs demo_defs realRun_def inParts_def)

lemma inParts_c:
  "wellFormed inParts"
  "canonicalKeys realRun reliable inParts"
  "Map_get (localState inParts) ''c.txt'' =
     Some \<lparr>path = ''c.txt'', md5 = ''#C1'', lastModified = 20\<rparr>"
  "Map_get (s3State inParts) ''c.txt'' =
     Some \<lparr>path = ''c.txt'', md5 = ''#C2-2'', lastModified = 40\<rparr>"
  "md5 \<lparr>path = ''c.txt'', md5 = ''#C1'', lastModified = 20\<rparr> \<noteq>
   md5 \<lparr>path = ''c.txt'', md5 = ''#C2-2'', lastModified = 40\<rparr>"
  by (simp_all add: inParts_def wellFormed_def Map_get_def canonicalKeys_def)

lemma settled_run:
  "periodicSync realRun listingAlias settled =
     Inr (settled\<lparr>localState :=
            [(''a.txt'', \<lparr>path = ''a.txt'', md5 = ''#A'', lastModified = 100\<rparr>),
             (''/a.txt'', \<lparr>path = ''/a.txt'', md5 = ''#X'', lastModified = 200\<rparr>)],
          s3State :=
            [(''a.txt'', \<lparr>path = ''a.txt'', md5 = ''#X'', lastModified = 200\<rparr>)],
          disk := [[''data'', ''a.txt''] \<mapsto> ''X''],
          bucket := [''/a.txt'' \<mapsto> ''X'', ''a.txt'' \<mapsto> ''X''],
          console := [Downloaded ''/a.txt'', Uploaded ''a.txt'']\<rparr>)"
  by (simp add: periodic_defs run_defs demo_defs realRun_def settled_def listingAlias_def
      fun_upd_twist)

lemma settled_c:
  "canonicalKeys realRun listingAlias settled"
  "Map_get (localState settled) ''a.txt'' =
     Some \<lparr>path = ''a.txt'', md5 = ''#A'', lastModified = 100\<rparr>"
  "Map_get (s3State settled) ''a.txt'' =
     Some \<lparr>path = ''a.txt'', md5 = ''#A'', lastModified = 20\<rparr>"
  "listedKeys listingAlias = [''a.txt'', ''/a.txt'']"
  "\<not> listedNewer listingAlias ''a.txt'' 100"
  "bucket settled ''a.txt'' = Some ''A''"
  by (simp_all add: settled_def listingAlias_def listedKeys_def listedNewer_def
      canonicalKeys_def reliable_def Map_get_def)

lemma settled_events:
  "thrown (periodicSync realRun listingAlias settled) = None"
  "newEvents settled (final (periodicSync realRun listingAlias settled)) =
     [Downloaded ''/a.txt'', Uploaded ''a.txt'']"
  "bucket (final (periodicSync realRun listingAlias settled)) ''a.txt'' = Some ''X''"
  unfolding settled_run by (simp_all add: newEvents_def final_def thrown_def settled_def)

section \<open>The claims\<close>

text \<open>
  Claim C1. With dry-run on, the initial pass only reports: both maps, the folder and the
  bucket end as they began (\<open>performInitialSync_dry_run\<close> above). The periodic pass and
  the watcher's handlers never read \<^verbatim>\<open>config.isDryRun\<close>, so they act whatever its value:
  on a folder holding \<^verbatim>\<open>a.txt\<close> and a bucket holding and listing \<^verbatim>\<open>b.txt\<close>, the periodic pass
  downloads \<^verbatim>\<open>b.txt\<close>, uploads \<^verbatim>\<open>a.txt\<close> and rewrites both maps; the change handler
  uploads \<^verbatim>\<open>a.txt\<close>; and once \<^verbatim>\<open>b.txt\<close> is on both sides, the unlink handler deletes it
  from the bucket.
\<close>

theorem dry_run_is_ignored_after_the_initial_pass:
  "isDryRun dryRun \<and>
   periodicSync dryRun listingB apart =
     Inr (apartSynced\<lparr>console := [Downloaded ''b.txt'', Uploaded ''a.txt'']\<rparr>) \<and>
   localState apartSynced \<noteq> localState apart \<and>
   s3State apartSynced \<noteq> s3State apart \<and>
   onChange dryRun reliable ''/data/a.txt'' apart =
     apart\<lparr>localState :=
            [(''a.txt'', \<lparr>path = ''a.txt'', md5 = ''#A'', lastModified = 100\<rparr>)],
          s3State := s3State apart @
            [(''a.txt'', \<lparr>path = ''a.txt'', md5 = ''#A'', lastModified = 100\<rparr>)],
          bucket := [''b.txt'' \<mapsto> ''B'', ''a.txt'' \<mapsto> ''A''],
          console := [Uploaded ''a.txt'']\<rparr> \<and>
   onUnlink dryRun reliable ''/data/b.txt''
       (apartSynced\<lparr>disk := [[''data'', ''a.txt''] \<mapsto> ''A'']\<rparr>) =
     apartSynced\<lparr>disk := [[''data'', ''a.txt''] \<mapsto> ''A''],
       localState := [(''a.txt'', \<lparr>path = ''a.txt'', md5 = ''#A'', lastModified = 10\<rparr>)],
       s3State := [(''a.txt'', \<lparr>path = ''a.txt'', md5 = ''#A'', lastModified = 100\<rparr>)],
       bucket := [''a.txt'' \<mapsto> ''A''],
       console := console apartSynced @ [DeletedFromS3 ''b.txt'']\<rparr>"
  by (simp add: periodic_defs run_defs demo_defs dryRun_def apart_def apartSynced_def
      onChange_def onUnlink_def listingB_def listedB_def fun_upd_twist)




text \<open>
  Claim C3. A failure inside the \<^verbatim>\<open>try\<close> of an operation is logged and the loop goes on
  (every loop above is total and returns the state). The read of the file to upload stands
  before the \<^verbatim>\<open>try\<close> of \<^verbatim>\<open>uploadToS3\<close>: when \<^verbatim>\<open>a.txt\<close> cannot be read, the initial pass
  ends there with the exception, \<^verbatim>\<open>b.txt\<close> is never uploaded, and the upload loop of the
  periodic pass ends the same way.
\<close>

theorem unreadable_file_aborts_the_pass:
  "performInitialSync realRun reliable vanished =
     Inl (ReadFileSyncFailed ''/data/a.txt'', vanished\<lparr>console := [PerformingInitialSync]\<rparr>) \<and>
   bucket (final (performInitialSync realRun reliable vanished)) ''b.txt'' = None \<and>
   \<not> uploadAttempted realRun ''b.txt''
       (newEvents vanished (final (performInitialSync realRun reliable vanished)))
       (thrown (performInitialSync realRun reliable vanished)) \<and>
   syncLocalToS3 realRun reliable vanished =
     Inl (ReadFileSyncFailed ''/data/a.txt'', vanished)"
  by (simp add: run_defs demo_defs realRun_def vanished_def final_def thrown_def newEvents_def
      uploadAttempted_def syncLocalToS3_def)







text \<open>
  Claim C6. Each of the four operations changes a map only when it succeeds: a successful
  upload sets the remote record of the path from the digest of the file as it is on disk,
  a successful download sets the local record from the digest of the downloaded bytes, a
  successful delete removes the entry of its side; an operation that fails (it logs an
  error, or \<^verbatim>\<open>uploadToS3\<close> throws) leaves both maps as they were. The upload is given the
  path of the file and records it under the key that \<^verbatim>\<open>path.relative\<close> makes of that path.
\<close>

theorem operations_update_state_only_on_success:
  "(uploadSucceeded cfg env filePath st \<longrightarrow>
      (\<exists>c. disk st (path_resolve env filePath) = Some c \<and>
         s3State (final (uploadToS3 cfg env filePath st)) =
           Map_set (s3State st) (path_relative env (localFolderPath cfg) filePath)
             \<lparr>path = path_relative env (localFolderPath cfg) filePath,
              md5 = digest env c, lastModified = now st\<rparr>) \<and>
      localState (final (uploadToS3 cfg env filePath st)) = localState st) \<and>
   (\<not> uploadSucceeded cfg env filePath st \<longrightarrow>
      s3State (final (uploadToS3 cfg env filePath st)) = s3State st \<and>
      localState (final (uploadToS3 cfg env filePath st)) = localState st) \<and>
   (downloadSucceeded cfg env k st \<longrightarrow>
      (\<exists>c. bucket st k = Some c \<and>
         localState (downloadFromS3 cfg env k st) =
           Map_set (localState st) k \<lparr>path = k, md5 = digest env c, lastModified = now st\<rparr>) \<and>
      s3State (downloadFromS3 cfg env k st) = s3State st) \<and>
   (\<not> downloadSucceeded cfg env k st \<longrightarrow>
      localState (downloadFromS3 cfg env k st) = localState st \<and>
      s3State (downloadFromS3 cfg env k st) = s3State st) \<and>
   (deleteFromS3Succeeded env k st \<longrightarrow>
      s3State (deleteFromS3 env k st) = Map_delete (s3State st) k \<and>
      localState (deleteFromS3 env k st) = localState st) \<and>
   (\<not> deleteFromS3Succeeded env k st \<longrightarrow>
      s3State (deleteFromS3 env k st) = s3State st \<and>
      localState (deleteFromS3 env k st) = localState st) \<and>
   (deleteLocalSucceeded cfg env k st \<longrightarrow>
      localState (deleteLocal cfg env k st) = Map_delete (localState st) k \<and>
      s3State (deleteLocal cfg env k st) = s3State st) \<and>
   (\<not> deleteLocalSucceeded cfg env k st \<longrightarrow>
      localState (deleteLocal cfg env k st) = localState st \<and>
      s3State (deleteLocal cfg env k st) = s3State st)"
proof -
  have up: "uploadSucceeded cfg env filePath st \<Longrightarrow>
      \<exists>c. disk st (path_resolve env filePath) = Some c \<and>
         s3State (final (uploadToS3 cfg env filePath st)) =
           Map_set (s3State st) (path_relative env (localFolderPath cfg) filePath)
             \<lparr>path = path_relative env (localFolderPath cfg) filePath,
              md5 = digest env c, lastModified = now st\<rparr>"
    by (auto simp: uploadSucceeded_def uploadToS3_def readFileSync_def calculateMD5_def
        logLine_def newEvents_def Let_def final_def thrown_def split: option.splits if_splits)
  have up': "\<not> uploadSucceeded cfg env filePath st \<Longrightarrow>
      s3State (final (uploadToS3 cfg env filePath st)) = s3State st"
    by (auto simp: uploadSucceeded_def uploadToS3_def readFileSync_def calculateMD5_def
        logLine_def newEvents_def Let_def final_def thrown_def split: option.splits if_splits)
  have down: "downloadSucceeded cfg env k st \<Longrightarrow>
      \<exists>c. bucket st k = Some c \<and>
         localState (downloadFromS3 cfg env k st) =
           Map_set (localState st) k \<lparr>path = k, md5 = digest env c, lastModified = now st\<rparr>"
    by (auto simp: downloadSucceeded_def downloadFromS3_def calculateMD5_def
        logLine_def newEvents_def Let_def split: option.splits if_splits)
  have down': "\<not> downloadSucceeded cfg env k st \<Longrightarrow>
      localState (downloadFromS3 cfg env k st) = localState st"
    by (auto simp: downloadSucceeded_def downloadFromS3_def calculateMD5_def
        logLine_def newEvents_def Let_def split: option.splits if_splits)
  have dr: "deleteFromS3Succeeded env k st \<Longrightarrow>
      s3State (deleteFromS3 env k st) = Map_delete (s3State st) k"
    by (auto simp: deleteFromS3Succeeded_def deleteFromS3_def logLine_def newEvents_def
        split: if_splits)
  have dr': "\<not> deleteFromS3Succeeded env k st \<Longrightarrow> s3State (deleteFromS3 env k st) = s3State st"
    by (auto simp: deleteFromS3Succeeded_def deleteFromS3_def logLine_def newEvents_def
        split: if_splits)
  have dl: "deleteLocalSucceeded cfg env k st \<Longrightarrow>
      localState (deleteLocal cfg env k st) = Map_delete (localState st) k"
    by (auto simp: deleteLocalSucceeded_def deleteLocal_def logLine_def newEvents_def Let_def
        split: if_splits)
  have dl': "\<not> deleteLocalSucceeded cfg env k st \<Longrightarrow>
      localState (deleteLocal cfg env k st) = localState st"
    by (auto simp: deleteLocalSucceeded_def deleteLocal_def logLine_def newEvents_def Let_def
        split: if_splits)
  show ?thesis
    using up up' down down' dr dr' dl dl' by simp
qed

text \<open>
  Each hypothesis of claim C6 holds at a concrete call: every operation once succeeding and
  once failing.
\<close>

theorem operations_update_state_only_on_success_witness:
  "uploadSucceeded realRun reliable ''/data/a.txt'' demo \<and>
   s3State (final (uploadToS3 realRun reliable ''/data/a.txt'' demo)) =
     s3State demo @ [(''a.txt'', \<lparr>path = ''a.txt'', md5 = ''#A'', lastModified = 100\<rparr>)] \<and>
   \<not> uploadSucceeded realRun reliable ''/data/b.txt'' demo \<and>
   s3State (final (uploadToS3 realRun reliable ''/data/b.txt'' demo)) = s3State demo \<and>
   downloadSucceeded realRun reliable ''b.txt'' demo \<and>
   localState (downloadFromS3 realRun reliable ''b.txt'' demo) =
     localState demo @ [(''b.txt'', \<lparr>path = ''b.txt'', md5 = ''#B'', lastModified = 100\<rparr>)] \<and>
   \<not> downloadSucceeded realRun reliable ''a.txt'' demo \<and>
   localState (downloadFromS3 realRun reliable ''a.txt'' demo) = localState demo \<and>
   deleteFromS3Succeeded reliable ''b.txt'' demo \<and>
   s3State (deleteFromS3 reliable ''b.txt'' demo) =
     [(''c.txt'', \<lparr>path = ''c.txt'', md5 = ''#C2'', lastModified = 40\<rparr>)] \<and>
   \<not> deleteFromS3Succeeded unreliable ''b.txt'' demo \<and>
   s3State (deleteFromS3 unreliable ''b.txt'' demo) = s3State demo \<and>
   deleteLocalSucceeded realRun reliable ''a.txt'' demo \<and>
   localState (deleteLocal realRun reliable ''a.txt'' demo) =
     [(''c.txt'', \<lparr>path = ''c.txt'', md5 = ''#C1'', lastModified = 20\<rparr>)] \<and>
   \<not> deleteLocalSucceeded realRun reliable ''b.txt'' demo \<and>
   localState (deleteLocal realRun reliable ''b.txt'' demo) = localState demo"
proof -
  have h1: "uploadSucceeded realRun reliable ''/data/a.txt'' demo"
    by (simp add: uploadSucceeded_def uploadToS3_def readFileSync_def calculateMD5_def
        logLine_def newEvents_def final_def thrown_def demo_defs realRun_def Let_def)
  have h2: "\<not> uploadSucceeded realRun reliable ''/data/b.txt'' demo"
    by (simp add: uploadSucceeded_def uploadToS3_def readFileSync_def calculateMD5_def
        logLine_def newEvents_def final_def thrown_def demo_defs realRun_def Let_def)
  have h3: "downloadSucceeded realRun reliable ''b.txt'' demo"
    by (simp add: downloadSucceeded_def downloadFromS3_def calculateMD5_def
        logLine_def newEvents_def demo_defs realRun_def Let_def)
  have h4: "\<not> downloadSucceeded realRun reliable ''a.txt'' demo"
    by (simp add: downloadSucceeded_def downloadFromS3_def calculateMD5_def
        logLine_def newEvents_def demo_defs realRun_def Let_def)
  have h5: "deleteFromS3Succeeded reliable ''b.txt'' demo"
    by (simp add: deleteFromS3Succeeded_def deleteFromS3_def logLine_def newEvents_def demo_defs)
  have h6: "\<not> deleteFromS3Succeeded unreliable ''b.txt'' demo"
    by (simp add: deleteFromS3Succeeded_def deleteFromS3_def logLine_def newEvents_def demo_defs)
  have h7: "deleteLocalSucceeded realRun reliable ''a.txt'' demo"
    by (simp add: deleteLocalSucceeded_def deleteLocal_def logLine_def newEvents_def demo_defs
        realRun_def Let_def)
  have h8: "\<not> deleteLocalSucceeded realRun reliable ''b.txt'' demo"
    by (simp add: deleteLocalSucceeded_def deleteLocal_def logLine_def newEvents_def demo_defs
        realRun_def Let_def)
  have d: "disk demo (path_resolve reliable ''/data/a.txt'') = Some ''A''"
    "bucket demo ''b.txt'' = Some ''B''"
    "now demo = 100" "digest reliable ''A'' = ''#A''" "digest reliable ''B'' = ''#B''"
    "path_relative reliable (localFolderPath realRun) ''/data/a.txt'' = ''a.txt''"
    "path_relative reliable (localFolderPath realRun) ''/data/b.txt'' = ''b.txt''"
    by (simp_all add: demo_defs realRun_def)
  have m: "Map_set (s3State demo) ''a.txt'' v = s3State demo @ [(''a.txt'', v)]"
    "Map_set (localState demo) ''b.txt'' v = localState demo @ [(''b.txt'', v)]"
    "Map_delete (s3State demo) ''b.txt'' =
       [(''c.txt'', \<lparr>path = ''c.txt'', md5 = ''#C2'', lastModified = 40\<rparr>)]"
    "Map_delete (localState demo) ''a.txt'' =
       [(''c.txt'', \<lparr>path = ''c.txt'', md5 = ''#C1'', lastModified = 20\<rparr>)]" for v
    by (simp_all add: demo_def Map_delete_def)
  note t1 = operations_update_state_only_on_success
    [of realRun reliable "''/data/a.txt''" demo "''b.txt''"]
  note t2 = operations_update_state_only_on_success
    [of realRun reliable "''/data/b.txt''" demo "''a.txt''"]
  note t3 = operations_update_state_only_on_success
    [of realRun unreliable "''/data/b.txt''" demo "''b.txt''"]
  have c1: "s3State (final (uploadToS3 realRun reliable ''/data/a.txt'' demo)) =
     s3State demo @ [(''a.txt'', \<lparr>path = ''a.txt'', md5 = ''#A'', lastModified = 100\<rparr>)]"
  proof -
    obtain c where c: "disk demo (path_resolve reliable ''/data/a.txt'') = Some c"
      and s: "s3State (final (uploadToS3 realRun reliable ''/data/a.txt'' demo)) =
           Map_set (s3State demo) (path_relative reliable (localFolderPath realRun) ''/data/a.txt'')
             \<lparr>path = path_relative reliable (localFolderPath realRun) ''/data/a.txt'',
              md5 = digest reliable c, lastModified = now demo\<rparr>"
      using t1 h1 by blast
    have "c = ''A''" using c d(1) by simp
    then show ?thesis unfolding s d(6) by (simp only: m d)
  qed
  have c2: "s3State (final (uploadToS3 realRun reliable ''/data/b.txt'' demo)) = s3State demo"
    using t2 h2 by blast
  have c3: "localState (downloadFromS3 realRun reliable ''b.txt'' demo) =
     localState demo @ [(''b.txt'', \<lparr>path = ''b.txt'', md5 = ''#B'', lastModified = 100\<rparr>)]"
  proof -
    obtain c where c: "bucket demo ''b.txt'' = Some c"
      and s: "localState (downloadFromS3 realRun reliable ''b.txt'' demo) =
           Map_set (localState demo) ''b.txt''
             \<lparr>path = ''b.txt'', md5 = digest reliable c, lastModified = now demo\<rparr>"
      using t1 h3 by blast
    have "c = ''B''" using c d(2) by simp
    then show ?thesis unfolding s by (simp only: m d)
  qed
  have c4: "localState (downloadFromS3 realRun reliable ''a.txt'' demo) = localState demo"
    using t2 h4 by blast
  have c5: "s3State (deleteFromS3 reliable ''b.txt'' demo) =
     [(''c.txt'', \<lparr>path = ''c.txt'', md5 = ''#C2'', lastModified = 40\<rparr>)]"
    using t1 h5 m(3) by simp
  have c6: "s3State (deleteFromS3 unreliable ''b.txt'' demo) = s3State demo"
    using t3 h6 by blast
  have c7: "localState (deleteLocal realRun reliable ''a.txt'' demo) =
     [(''c.txt'', \<lparr>path = ''c.txt'', md5 = ''#C1'', lastModified = 20\<rparr>)]"
    using t2 h7 m(4) by simp
  have c8: "localState (deleteLocal realRun reliable ''b.txt'' demo) = localState demo"
    using t1 h8 by blast
  show ?thesis
    by (intro conjI h1 h2 h3 h4 h5 h6 h7 h8 c1 c2 c3 c4 c5 c6 c7 c8)
qed


text \<open>
  Claim C7, amended. Take maps whose keys are normalised relative paths, and a path present
  in both with equal fingerprints. The initial full pass schedules neither an upload nor a
  download for it. The periodic pass decides its downloads by timestamp: when the
  re-listing names normalised relative paths only and holds no entry for the path that is
  newer than the locally recorded \<^verbatim>\<open>lastModified\<close>, it schedules neither an upload nor a
  download for the path; when the re-listing holds a newer entry, it downloads the path.
\<close>

theorem identical_content_not_scheduled:
  assumes "wellFormed st"
    and "canonicalKeys cfg env st"
    and "Map_get (localState st) p = Some f"
    and "Map_get (s3State st) p = Some g"
    and "md5 f = md5 g"
  shows "\<not> downloadScheduled p (newEvents st (final (performInitialSync cfg env st))) \<and>
         \<not> uploadScheduled cfg p (newEvents st (final (performInitialSync cfg env st)))
             (thrown (performInitialSync cfg env st)) \<and>
         (list_all (canonical cfg env) (listedKeys env) \<and>
          \<not> listedNewer env p (lastModified f) \<longrightarrow>
            \<not> downloadScheduled p (newEvents st (final (periodicSync cfg env st))) \<and>
            \<not> uploadScheduled cfg p (newEvents st (final (periodicSync cfg env st)))
                (thrown (periodicSync cfg env st))) \<and>
         (listedNewer env p (lastModified f) \<longrightarrow>
            downloadAttempted p (newEvents st (final (periodicSync cfg env st))))"
  using initial_equal_untouched [OF assms]
    periodic_equal_untouched [OF assms(1,2) _ assms(3,4,5)]
    periodic_newer_downloads [OF assms(3)]
  by blast

text \<open>
  Claim C7 as stated fails, in three ways. In the periodic pass, \<^verbatim>\<open>c.txt\<close> has the same
  fingerprint on both sides and a newer \<^verbatim>\<open>lastModified\<close> in the listing, and it is
  downloaded. In the initial pass, \<^verbatim>\<open>a.txt\<close> has the same fingerprint on both sides and the
  bucket holds another object under the key \<^verbatim>\<open>/a.txt\<close>: the pass downloads that object onto
  the file of \<^verbatim>\<open>a.txt\<close> and uploads the file under the key \<^verbatim>\<open>a.txt\<close>. And in the periodic
  pass, with maps that hold the one key \<^verbatim>\<open>a.txt\<close>, the same fingerprint on both sides and no
  newer entry listed for it, the re-listing names \<^verbatim>\<open>/a.txt\<close> as well: the pass downloads that
  object onto the file of \<^verbatim>\<open>a.txt\<close> and uploads the file under the key \<^verbatim>\<open>a.txt\<close>.
\<close>

theorem identical_content_not_scheduled_counterexample:
  "Map_get (localState restarted) ''c.txt'' =
     Some \<lparr>path = ''c.txt'', md5 = ''#C'', lastModified = 1\<rparr> \<and>
   Map_get (s3State restarted) ''c.txt'' =
     Some \<lparr>path = ''c.txt'', md5 = ''#C'', lastModified = 2\<rparr> \<and>
   periodicSync realRun relisting restarted =
     Inr (restarted\<lparr>localState :=
            [(''c.txt'', \<lparr>path = ''c.txt'', md5 = ''#C'', lastModified = 100\<rparr>)],
          console := [Downloaded ''c.txt'']\<rparr>) \<and>
   downloadScheduled ''c.txt''
     (newEvents restarted (final (periodicSync realRun relisting restarted))) \<and>
   Map_get (localState shadowed) ''a.txt'' =
     Some \<lparr>path = ''a.txt'', md5 = ''#A'', lastModified = 10\<rparr> \<and>
   Map_get (s3State shadowed) ''a.txt'' =
     Some \<lparr>path = ''a.txt'', md5 = ''#A'', lastModified = 20\<rparr> \<and>
   thrown (performInitialSync realRun reliable shadowed) = None \<and>
   newEvents shadowed (final (performInitialSync realRun reliable shadowed)) =
     [PerformingInitialSync, Downloaded ''/a.txt'', Uploaded ''a.txt'', InitialSyncCompleted] \<and>
   uploadScheduled realRun ''a.txt''
     (newEvents shadowed (final (performInitialSync realRun reliable shadowed)))
     (thrown (performInitialSync realRun reliable shadowed)) \<and>
   bucket shadowed ''a.txt'' = Some ''A'' \<and>
   bucket (final (performInitialSync realRun reliable shadowed)) ''a.txt'' = Some ''X'' \<and>
   canonicalKeys realRun listingAlias settled \<and>
   Map_get (localState settled) ''a.txt'' =
     Some \<lparr>path = ''a.txt'', md5 = ''#A'', lastModified = 100\<rparr> \<and>
   Map_get (s3State settled) ''a.txt'' =
     Some \<lparr>path = ''a.txt'', md5 = ''#A'', lastModified = 20\<rparr> \<and>
   listedKeys listingAlias = [''a.txt'', ''/a.txt''] \<and>
   \<not> listedNewer listingAlias ''a.txt'' 100 \<and>
   thrown (periodicSync realRun listingAlias settled) = None \<and>
   newEvents settled (final (periodicSync realRun listingAlias settled)) =
     [Downloaded ''/a.txt'', Uploaded ''a.txt''] \<and>
   uploadScheduled realRun ''a.txt''
     (newEvents settled (final (periodicSync realRun listingAlias settled)))
     (thrown (periodicSync realRun listingAlias settled)) \<and>
   bucket settled ''a.txt'' = Some ''A'' \<and>
   bucket (final (periodicSync realRun listingAlias settled)) ''a.txt'' = Some ''X''"
proof -
  have listed: "Map_get (localState restarted) ''c.txt'' =
       Some \<lparr>path = ''c.txt'', md5 = ''#C'', lastModified = 1\<rparr> \<and>
     Map_get (s3State restarted) ''c.txt'' =
       Some \<lparr>path = ''c.txt'', md5 = ''#C'', lastModified = 2\<rparr> \<and>
     periodicSync realRun relisting restarted =
       Inr (restarted\<lparr>localState :=
              [(''c.txt'', \<lparr>path = ''c.txt'', md5 = ''#C'', lastModified = 100\<rparr>)],
            console := [Downloaded ''c.txt'']\<rparr>) \<and>
     downloadScheduled ''c.txt''
       (newEvents restarted (final (periodicSync realRun relisting restarted)))"
    by (simp add: periodic_defs run_defs demo_defs realRun_def newEvents_def final_def
        downloadScheduled_def downloadAttempted_def)
  have initial: "Map_get (localState shadowed) ''a.txt'' =
       Some \<lparr>path = ''a.txt'', md5 = ''#A'', lastModified = 10\<rparr> \<and>
     Map_get (s3State shadowed) ''a.txt'' =
       Some \<lparr>path = ''a.txt'', md5 = ''#A'', lastModified = 20\<rparr> \<and>
     thrown (performInitialSync realRun reliable shadowed) = None \<and>
     newEvents shadowed (final (performInitialSync realRun reliable shadowed)) =
       [PerformingInitialSync, Downloaded ''/a.txt'', Uploaded ''a.txt'',
        InitialSyncCompleted] \<and>
     uploadScheduled realRun ''a.txt''
       (newEvents shadowed (final (performInitialSync realRun reliable shadowed)))
       (thrown (performInitialSync realRun reliable shadowed)) \<and>
     bucket shadowed ''a.txt'' = Some ''A'' \<and>
     bucket (final (performInitialSync realRun reliable shadowed)) ''a.txt'' = Some ''X''"
    unfolding shadowed_run
    by (simp add: Map_get_def newEvents_def uploadScheduled_def uploadAttempted_def
        shadowed_def)
  have periodic: "uploadScheduled realRun ''a.txt''
       (newEvents settled (final (periodicSync realRun listingAlias settled)))
       (thrown (periodicSync realRun listingAlias settled))"
    unfolding settled_events by (simp add: uploadScheduled_def uploadAttempted_def)
  show ?thesis
    by (intro conjI listed [THEN conjunct1] listed [THEN conjunct2, THEN conjunct1]
        listed [THEN conjunct2, THEN conjunct2, THEN conjunct1]
        listed [THEN conjunct2, THEN conjunct2, THEN conjunct2]
        initial [THEN conjunct1] initial [THEN conjunct2, THEN conjunct1]
        initial [THEN conjunct2, THEN conjunct2, THEN conjunct1]
        initial [THEN conjunct2, THEN conjunct2, THEN conjunct2, THEN conjunct1]
        initial [THEN conjunct2, THEN conjunct2, THEN conjunct2, THEN conjunct2,
          THEN conjunct1]
        initial [THEN conjunct2, THEN conjunct2, THEN conjunct2, THEN conjunct2,
          THEN conjunct2, THEN conjunct1]
        initial [THEN conjunct2, THEN conjunct2, THEN conjunct2, THEN conjunct2,
          THEN conjunct2, THEN conjunct2]
        settled_c settled_events periodic)
qed

text \<open>
  The hypotheses of the amended claim C7 hold for \<^verbatim>\<open>a.txt\<close> after a full pass (nothing
  listed as newer) and for \<^verbatim>\<open>c.txt\<close> after a restart (listed as newer).
\<close>

theorem identical_content_not_scheduled_witness:
  "wellFormed demoSynced \<and> canonicalKeys realRun reliable demoSynced \<and>
   Map_get (localState demoSynced) ''a.txt'' =
     Some \<lparr>path = ''a.txt'', md5 = ''#A'', lastModified = 10\<rparr> \<and>
   Map_get (s3State demoSynced) ''a.txt'' =
     Some \<lparr>path = ''a.txt'', md5 = ''#A'', lastModified = 100\<rparr> \<and>
   list_all (canonical realRun reliable) (listedKeys reliable) \<and>
   \<not> listedNewer reliable ''a.txt'' 10 \<and>
   \<not> downloadScheduled ''a.txt''
       (newEvents demoSynced (final (performInitialSync realRun reliable demoSynced))) \<and>
   \<not> uploadScheduled realRun ''a.txt''
       (newEvents demoSynced (final (performInitialSync realRun reliable demoSynced)))
       (thrown (performInitialSync realRun reliable demoSynced)) \<and>
   \<not> downloadScheduled ''a.txt''
       (newEvents demoSynced (final (periodicSync realRun reliable demoSynced))) \<and>
   \<not> uploadScheduled realRun ''a.txt''
       (newEvents demoSynced (final (periodicSync realRun reliable demoSynced)))
       (thrown (periodicSync realRun reliable demoSynced)) \<and>
   wellFormed restarted \<and> canonicalKeys realRun relisting restarted \<and>
   listedNewer relisting ''c.txt'' 1 \<and>
   downloadAttempted ''c.txt''
     (newEvents restarted (final (periodicSync realRun relisting restarted)))"
proof -
  have a: "wellFormed demoSynced"
    "canonicalKeys realRun reliable demoSynced"
    "Map_get (localState demoSynced) ''a.txt'' =
       Some \<lparr>path = ''a.txt'', md5 = ''#A'', lastModified = 10\<rparr>"
    "Map_get (s3State demoSynced) ''a.txt'' =
       Some \<lparr>path = ''a.txt'', md5 = ''#A'', lastModified = 100\<rparr>"
    "md5 \<lparr>path = ''a.txt'', md5 = ''#A'', lastModified = 10\<rparr> =
     md5 \<lparr>path = ''a.txt'', md5 = ''#A'', lastModified = 100\<rparr>"
    by (simp_all add: demoSynced_def wellFormed_def Map_get_def canonicalKeys_def)
  have b: "wellFormed restarted"
    "canonicalKeys realRun relisting restarted"
    "Map_get (localState restarted) ''c.txt'' =
       Some \<lparr>path = ''c.txt'', md5 = ''#C'', lastModified = 1\<rparr>"
    "Map_get (s3State restarted) ''c.txt'' =
       Some \<lparr>path = ''c.txt'', md5 = ''#C'', lastModified = 2\<rparr>"
    "md5 \<lparr>path = ''c.txt'', md5 = ''#C'', lastModified = 1\<rparr> =
     md5 \<lparr>path = ''c.txt'', md5 = ''#C'', lastModified = 2\<rparr>"
    by (simp_all add: restarted_def wellFormed_def Map_get_def canonicalKeys_def)
  have n: "\<not> listedNewer reliable ''a.txt'' 10" "listedNewer relisting ''c.txt'' 1"
    "list_all (canonical realRun reliable) (listedKeys reliable)"
    by (simp_all add: listedNewer_def listedKeys_def reliable_def relisting_def listedC_def)
  note t1 = identical_content_not_scheduled [OF a]
  note t2 = identical_content_not_scheduled [OF b]
  have c1: "\<not> downloadScheduled ''a.txt''
       (newEvents demoSynced (final (performInitialSync realRun reliable demoSynced)))"
    by (rule t1 [THEN conjunct1])
  have c2: "\<not> uploadScheduled realRun ''a.txt''
       (newEvents demoSynced (final (performInitialSync realRun reliable demoSynced)))
       (thrown (performInitialSync realRun reliable demoSynced))"
    by (rule t1 [THEN conjunct2, THEN conjunct1])
  have c34: "\<not> downloadScheduled ''a.txt''
       (newEvents demoSynced (final (periodicSync realRun reliable demoSynced))) \<and>
     \<not> uploadScheduled realRun ''a.txt''
       (newEvents demoSynced (final (periodicSync realRun reliable demoSynced)))
       (thrown (periodicSync realRun reliable demoSynced))"
    using t1 [THEN conjunct2, THEN conjunct2, THEN conjunct1] n(1,3) by simp
  have c5: "downloadAttempted ''c.txt''
     (newEvents restarted (final (periodicSync realRun relisting restarted)))"
    using t2 [THEN conjunct2, THEN conjunct2, THEN conjunct2] n(2) by simp
  show ?thesis
    by (intro conjI a(1,2,3,4) n(3) n(1) c1 c2 c34 [THEN conjunct1] c34 [THEN conjunct2]
        b(1,2) n(2) c5)
qed

text \<open>
  Claim C8. When the listing resolves with entries of distinct keys, \<^verbatim>\<open>syncS3ToLocal\<close>
  calls \<^verbatim>\<open>downloadFromS3\<close> for an entry exactly when \<^verbatim>\<open>localState\<close> has no record of its key
  or records a \<^verbatim>\<open>lastModified\<close> older than the entry's. The fingerprints take no part.
\<close>

theorem syncS3ToLocal_downloads_by_timestamp:
  assumes ls: "listObjects env = ListResolved (Some contents)"
    and dist: "distinct (map Key contents)"
    and ob: "object \<in> set contents"
  shows "downloadAttempted (Key object) (newEvents st (syncS3ToLocal cfg env st)) \<longleftrightarrow>
         (case Map_get (localState st) (Key object) of
            None \<Rightarrow> True
          | Some localFile \<Rightarrow> lastModified localFile < LastModified object)"
proof
  assume att: "downloadAttempted (Key object) (newEvents st (syncS3ToLocal cfg env st))"
  show "case Map_get (localState st) (Key object) of
            None \<Rightarrow> True
          | Some localFile \<Rightarrow> lastModified localFile < LastModified object"
  proof (cases "Map_get (localState st) (Key object)")
    case None
    then show ?thesis by simp
  next
    case (Some f)
    have only: "\<forall>o' \<in> set contents. Key o' = Key object \<longrightarrow> o' = object"
      using dist ob by (auto simp: distinct_map inj_on_def)
    have "lastModified f < LastModified object"
    proof (rule ccontr)
      assume "\<not> lastModified f < LastModified object"
      then have "\<not> listedNewer env (Key object) (lastModified f)"
        using ls only by (auto simp: listedNewer_def)
      from syncS3ToLocal_not_newer_untouched [OF this Some]
      show False using att by (simp add: downloadScheduled_def)
    qed
    then show ?thesis using Some by simp
  qed
next
  assume "case Map_get (localState st) (Key object) of
            None \<Rightarrow> True
          | Some localFile \<Rightarrow> lastModified localFile < LastModified object"
  from list_attempted [OF ob this]
  show "downloadAttempted (Key object) (newEvents st (syncS3ToLocal cfg env st))"
    using ls by (simp add: syncS3ToLocal_def)
qed

text \<open>
  The hypotheses of claim C8 hold for a listing of one entry, newer than the local record.
\<close>

theorem syncS3ToLocal_downloads_by_timestamp_witness:
  "listObjects relisting = ListResolved (Some [listedC]) \<and>
   distinct (map Key [listedC]) \<and>
   listedC \<in> set [listedC] \<and>
   Map_get (localState restarted) (Key listedC) =
     Some \<lparr>path = ''c.txt'', md5 = ''#C'', lastModified = 1\<rparr> \<and>
   LastModified listedC = 2 \<and>
   downloadAttempted (Key listedC) (newEvents restarted (syncS3ToLocal realRun relisting restarted))"
proof -
  have h1: "listObjects relisting = ListResolved (Some [listedC])"
    by (simp add: relisting_def reliable_def)
  have h2: "distinct (map Key [listedC])" by simp
  have h3: "listedC \<in> set [listedC]" by simp
  have l: "Map_get (localState restarted) (Key listedC) =
     Some \<lparr>path = ''c.txt'', md5 = ''#C'', lastModified = 1\<rparr>"
    "LastModified listedC = 2"
    by (simp_all add: restarted_def listedC_def Map_get_def)
  show ?thesis
    using syncS3ToLocal_downloads_by_timestamp [OF h1 h2 h3, where st = restarted and cfg = realRun] h1 l
    by simp
qed

text \<open>
  Claim C9, amended. Take maps whose keys are normalised relative paths. With dry-run off, if
  the pass logs no download error, then it never calls \<^verbatim>\<open>deleteFromS3\<close>: when the upload
  loop has returned, every key of \<^verbatim>\<open>s3State\<close> is a key of \<^verbatim>\<open>localState\<close>.
\<close>

theorem no_remote_delete_after_successful_downloads:
  assumes "\<not> isDryRun cfg"
    and can: "canonicalKeys cfg env st"
    and "\<forall>k. ErrorDownloading k \<notin> set (newEvents st (final (performInitialSync cfg env st)))"
  shows "(\<forall>k. \<not> deleteFromS3Attempted k (newEvents st (final (performInitialSync cfg env st)))) \<and>
         (\<forall>st3. afterUploads cfg env st = Inr st3 \<longrightarrow>
            (\<forall>k \<in> fst ` set (s3State st3). Map_has (localState st3) k))"
proof -
  let ?st1 = "logLine PerformingInitialSync st"
  let ?st2 = "afterDownloads cfg env st"
  let ?r3 = "afterUploads cfg env st"
  have "\<forall>k \<in> fst ` set (s3State st). Map_has (localState ?st2) k"
    using downloads_has [OF assms(1), of ?st1 env "s3State st"]
      afterDownloads_no_error [OF assms(3)]
    by (simp add: afterDownloads_def)
  then have a: "fst ` set (s3State st) \<subseteq> fst ` set (localState ?st2)"
    unfolding Map_has_def set_map by blast
  have "fst ` set (s3State (final ?r3))
      \<subseteq> fst ` set (s3State ?st2) \<union> fst ` set (localState ?st2)"
    unfolding afterUploads_def by (rule uploads_keys [OF afterDownloads_canonical [OF can]])
  then have "fst ` set (s3State (final ?r3)) \<subseteq> fst ` set (localState (final ?r3))"
    using a by simp blast
  then have has: "\<forall>k \<in> fst ` set (s3State (final ?r3)). Map_has (localState (final ?r3)) k"
    unfolding Map_has_def set_map by blast
  have n1: "newEvents st ?st2 = [PerformingInitialSync] @ newEvents ?st1 ?st2"
    using newEvents_trans [OF grows_logLine, of PerformingInitialSync st ?st2]
    by (simp add: afterDownloads_def)
  have "\<not> deleteFromS3Attempted k (newEvents ?st1 ?st2)" for k
    unfolding afterDownloads_def
    by (rule linesOf_not_deleteFromS3 [OF downloads_lines]) simp
  then have nd2: "\<not> deleteFromS3Attempted k (newEvents st ?st2)" for k
    unfolding n1 by simp
  have n2: "newEvents st (final ?r3) = newEvents st ?st2 @ newEvents ?st2 (final ?r3)"
    by (rule newEvents_trans [OF afterDownloads_grows afterUploads_frame(4)])
  have "\<not> deleteFromS3Attempted k (newEvents ?st2 (final ?r3))" for k
    unfolding afterUploads_def
    by (rule linesOf_not_deleteFromS3 [OF uploads_lines [OF afterDownloads_canonical [OF can]]])
      simp
  then have nd3: "\<not> deleteFromS3Attempted k (newEvents st (final ?r3))" for k
    unfolding n2 using nd2 by simp
  have "\<not> deleteFromS3Attempted k (newEvents st (final (performInitialSync cfg env st)))" for k
  proof (cases ?r3)
    case (Inl t)
    then have "final (performInitialSync cfg env st) = final ?r3"
      by (cases t) (simp add: performInitialSync_final)
    then show ?thesis
      using nd3 by simp
  next
    case (Inr st3)
    have idle: "performInitialSync_deletesS3 cfg env (map fst (s3State st3)) st3 = st3"
      using has Inr by (intro deletesS3_idle) simp
    let ?st5 = "performInitialSync_deletesLocal cfg env (map fst (localState st3)) st3"
    have fin: "final (performInitialSync cfg env st) = logLine InitialSyncCompleted ?st5"
      using Inr idle by (simp add: performInitialSync_final afterDeletes_def)
    have g3: "grows st st3"
      using afterUploads_grows [where st = st and cfg = cfg and env = env] Inr by simp
    have g5: "grows st3 ?st5" by simp
    have "newEvents st (logLine InitialSyncCompleted ?st5) =
        newEvents st ?st5 @ newEvents ?st5 (logLine InitialSyncCompleted ?st5)"
      by (rule newEvents_trans [OF grows_trans [OF g3 g5] grows_logLine])
    moreover have "newEvents st ?st5 = newEvents st st3 @ newEvents st3 ?st5"
      by (rule newEvents_trans [OF g3 g5])
    moreover have "\<not> deleteFromS3Attempted k (newEvents st3 ?st5)"
      by (rule linesOf_not_deleteFromS3 [OF deletesLocal_lines]) simp
    moreover have "\<not> deleteFromS3Attempted k (newEvents st st3)"
      using nd3 [of k] Inr by simp
    ultimately show ?thesis
      unfolding fin by simp
  qed
  moreover have "\<forall>k \<in> fst ` set (s3State st3). Map_has (localState st3) k"
    if "?r3 = Inr st3" for st3
    using has that by simp
  ultimately show ?thesis
    by blast
qed

text \<open>
  Claim C9 as stated fails: the bucket holds one object under the key \<^verbatim>\<open>/a.txt\<close>, with a
  tag that is not the digest of its bytes. The pass downloads it, uploads the file it wrote
  under the key \<^verbatim>\<open>a.txt\<close>, which \<^verbatim>\<open>localState\<close> does not hold, and deletes \<^verbatim>\<open>a.txt\<close> from the
  bucket.
\<close>

theorem no_remote_delete_after_successful_downloads_counterexample:
  "\<not> isDryRun realRun \<and>
   thrown (performInitialSync realRun reliable slashed) = None \<and>
   newEvents slashed (final (performInitialSync realRun reliable slashed)) =
     [PerformingInitialSync, Downloaded ''/a.txt'', Uploaded ''a.txt'', DeletedFromS3 ''a.txt'',
      InitialSyncCompleted] \<and>
   deleteFromS3Attempted ''a.txt''
     (newEvents slashed (final (performInitialSync realRun reliable slashed))) \<and>
   afterUploads realRun reliable slashed =
     Inr (slashed\<lparr>localState :=
            [(''/a.txt'', \<lparr>path = ''/a.txt'', md5 = ''#A'', lastModified = 100\<rparr>)],
          s3State := s3State slashed @
            [(''a.txt'', \<lparr>path = ''a.txt'', md5 = ''#A'', lastModified = 100\<rparr>)],
          disk := [[''data'', ''a.txt''] \<mapsto> ''A''],
          bucket := [''/a.txt'' \<mapsto> ''A'', ''a.txt'' \<mapsto> ''A''],
          console := [PerformingInitialSync, Downloaded ''/a.txt'', Uploaded ''a.txt'']\<rparr>) \<and>
   \<not> Map_has (localState (final (afterUploads realRun reliable slashed))) ''a.txt''"
  unfolding slashed_run
  by (simp add: newEvents_def slashed_def realRun_def afterUploads_def afterDownloads_def
      run_defs demo_defs)

text \<open>
  The hypotheses of the amended claim C9 hold in the scenario whose pass downloads two
  files.
\<close>

theorem no_remote_delete_after_successful_downloads_witness:
  "\<not> isDryRun realRun \<and> canonicalKeys realRun reliable demo \<and>
   ErrorDownloading ''b.txt'' \<notin> set (newEvents demo (final (performInitialSync realRun reliable demo))) \<and>
   \<not> deleteFromS3Attempted ''b.txt''
       (newEvents demo (final (performInitialSync realRun reliable demo)))"
proof -
  have h1: "\<not> isDryRun realRun"
    by (simp add: realRun_def)
  have h2: "\<forall>k. ErrorDownloading k \<notin>
      set (newEvents demo (final (performInitialSync realRun reliable demo)))"
    unfolding demo_run by (simp add: newEvents_def demoSynced_def demo_def)
  show ?thesis
    using no_remote_delete_after_successful_downloads [OF h1 demo_c(2) h2] h1 h2 demo_c(2)
    by blast
qed


end
